theory Spec2Isabelle
  imports Main "HOL-Library.Multiset"
begin

section \<open>The rules catalog (evolve/rules/models.py)\<close>

text \<open>
  The catalog rows are immutable. Every row carries its primary key, so that equality of
  records is the equality of rows that Django computes on primary keys. A foreign key is
  modelled by the row it points to, except \<open>Building.free_having\<close>, a key into the
  same table, which is kept as the primary key it stores.
  Fields of different models that share a name are told apart by a prefix
  (\<open>cost_money\<close>, \<open>age_order\<close>, \<open>special_order\<close>, \<open>building_effect\<close>, ...).
\<close>

record cost =
  cost_money :: int
  cost_lines :: "(int \<times> string) list"  \<comment> \<open>\<open>cost_line_set\<close>: (amount, resource name)\<close>

record age =
  age_id :: nat
  age_name :: string
  age_order :: nat
  victory_score :: int
  defeat_score :: int
  age_direction :: char  \<comment> \<open>read by \<open>Game.end_of_turn\<close>: \<open>CHR ''l''\<close> or \<open>CHR ''r''\<close>\<close>

record city =
  city_id :: nat
  city_name :: string
  resource :: string  \<comment> \<open>the name of the city's resource\<close>

record effect =
  effect_id :: nat
  production :: "cost option"
  effect_score :: nat
  effect_military :: nat
  sciences :: "string list"  \<comment> \<open>names of the sciences offered\<close>
  trade :: "cost option"
  left_trade :: bool
  right_trade :: bool
  kind_payed :: "string option"
  money_per_neighbor_building :: nat
  money_per_local_building :: nat
  kinds_scored :: "string list"
  score_per_neighbor_building :: nat
  score_per_local_building :: nat
  money_per_local_special :: nat
  score_per_local_special :: nat
  money_per_neighbor_special :: nat
  score_per_neighbor_special :: nat
  score_per_neighbor_defeat :: nat
  free_building :: bool
  extra_turn :: bool
  use_discards :: bool
  copy_personality :: bool

record city_special =
  special_city :: city
  special_variant :: nat
  special_order :: nat
  special_cost :: cost
  special_effect :: effect

record building =
  building_id :: nat
  building_name :: string
  kind :: string  \<comment> \<open>the name of the building's kind\<close>
  building_effect :: effect
  building_cost :: cost
  free_having :: nat  \<comment> \<open>primary key of the building that makes this one free\<close>

record build_option =
  option_id :: nat
  players_needed :: nat
  building :: building
  option_age :: age

text \<open>What \<open>Player.payment_options\<close> and \<open>Player.next_special\<close> call an item.\<close>

datatype item = BuildingItem building | SpecialItem city_special

section \<open>Game state (evolve/game/models.py)\<close>

datatype error =
  AssertionError | DoesNotExist | NameError | AttributeError | IntegrityError | ValueError
  | TypeError

text \<open>
  An operation that alters data returns the state it leaves behind, also when it raises:
  what was saved before the exception stays saved.
\<close>

datatype 's outcome = Done 's | Raised error 's

record player =
  user :: nat
  city :: city
  variant :: nat
  money :: int
  specials_built :: nat
  buildings :: "building list"
  special_free_building_ages_used :: "age list"
  current_options :: "build_option list"
  option_picked :: "build_option option"
  action :: string
  trade_left :: int
  trade_right :: int

record battle_result =
  owner :: nat  \<comment> \<open>position of the owning player in \<open>player_set\<close>\<close>
  battle_age :: age
  battle_direction :: char
  result :: char

text \<open>
  One game with the rows that point to it: its players in the order of
  \<open>order_with_respect_to\<close> and the battle results of its players. A many-to-many
  relation is a list without repetition. The store holds this one game: the rows of the
  player table and of its relations are those of \<open>player_set\<close>.

  A value of type \<open>game\<close> is what is saved. A Python object of a player or of the game
  is a copy of the columns of its row, taken when it was loaded: it changes the row only
  through \<open>save()\<close>, whereas a many-to-many relation is read and written in the store
  at once. Every operation that is called from outside (\<open>join\<close>, \<open>start\<close>, \<open>play\<close>)
  starts from objects that were just loaded.
\<close>

record game =
  allowed_variants :: "nat list"
  age :: age
  turn :: nat
  discards :: "build_option list"
  started :: bool
  finished :: bool
  special_use_discards_turn :: bool
  player_set :: "player list"
  battleresult_set :: "battle_result list"

text \<open>
  Modelled from the spec: \<open>economy.PaymentOption\<close> is not among the sources. The spec
  describes it as money spent and the amount bought from each neighbor; the option built
  without arguments is "pay nothing".
\<close>

record payment_option =
  payment_money :: int
  payment_trade_left :: int
  payment_trade_right :: int

definition PaymentOption :: payment_option where
  "PaymentOption = \<lparr>payment_money = 0, payment_trade_left = 0, payment_trade_right = 0\<rparr>"

text \<open>
  The modules \<open>evolve.rules.constants\<close> and \<open>evolve.rules.economy\<close>, the constants
  \<open>PERSONALITY\<close> and \<open>TRADEABLE\<close> and the methods \<open>Age.first\<close>, \<open>Age.next\<close> and
  \<open>Effect.money\<close> are not among the sources: they are parameters of the model, together
  with the tables of the catalog that the game queries.
\<close>

record rules =
  MINIMUM_PLAYERS :: nat
  INITIAL_OPTIONS :: nat
  TURN_COUNT :: nat
  INITIAL_MONEY :: int
  SELL_VALUE :: int
  DEFAULT_TRADE_COST :: int
  SCIENCE_SCORE_PER_GROUP :: nat
  PERSONALITY :: string
  TRADEABLE :: "string list"
  City_objects :: "city list"
  Effect_objects :: "effect list"
  CitySpecial_objects :: "city_special list"
  Building_objects :: "building list"
  BuildOption_objects :: "build_option list"
  Science_objects :: "string list"  \<comment> \<open>the names of all sciences\<close>
  Age_first :: age
  Age_next :: "age \<Rightarrow> age option"
  Effect_money :: "effect \<Rightarrow> player \<Rightarrow> player \<Rightarrow> player \<Rightarrow> int"
  get_payments :: "(string \<times> int) list \<Rightarrow> int \<Rightarrow> (int \<times> string) list list \<Rightarrow>
     (int \<times> string) list list \<Rightarrow> (string \<Rightarrow> int) \<Rightarrow>
     (int \<times> string) list list \<Rightarrow> (string \<Rightarrow> int) \<Rightarrow> payment_option list"

subsection \<open>Costs\<close>

text \<open>
  Modelled from the spec: \<open>Cost.to_dict\<close> and \<open>Cost.to_list\<close> are not among the
  sources; the tests of the rules fix them: the dictionary has the money under the key
  \<open>$\<close> and every resource under its name, the list has the (amount, resource) pairs.
\<close>

definition to_dict :: "cost \<Rightarrow> (string \<times> int) list" where
  "to_dict c = (''$'', cost_money c) # map (\<lambda>(a, r). (r, a)) (cost_lines c)"

definition to_list :: "cost \<Rightarrow> (int \<times> string) list" where
  "to_list c = cost_lines c"

subsection \<open>Neighbors and effects of a player\<close>

text \<open>
  A player is addressed by its position \<open>i\<close> in \<open>player_set\<close>.
  \<open>get_previous_in_order\<close> and \<open>get_next_in_order\<close> raise \<open>DoesNotExist\<close> at the
  ends of the order (\<open>None\<close> here); \<open>left_player\<close> and \<open>right_player\<close> then take
  the last and the first player of the game.
\<close>

definition get_previous_in_order :: "game \<Rightarrow> nat \<Rightarrow> nat option" where
  "get_previous_in_order g i = (if i = 0 then None else Some (i - 1))"

definition get_next_in_order :: "game \<Rightarrow> nat \<Rightarrow> nat option" where
  "get_next_in_order g i = (if Suc i < length (player_set g) then Some (Suc i) else None)"

definition left_player :: "game \<Rightarrow> nat \<Rightarrow> nat" where
  "left_player g i =
     (case get_previous_in_order g i of Some j \<Rightarrow> j | None \<Rightarrow> length (player_set g) - 1)"

definition right_player :: "game \<Rightarrow> nat \<Rightarrow> nat" where
  "right_player g i = (case get_next_in_order g i of Some j \<Rightarrow> j | None \<Rightarrow> 0)"

text \<open>
  \<open>Player.active_effects\<close>: the union \<open>|\<close> of the two querysets is one \<open>SELECT\<close> on
  the effect table, joined by \<open>LEFT OUTER JOIN\<close> with the city specials that have the
  effect, with the buildings that have the effect and with the player-building rows of
  these buildings, and filtered by: the special is a built special of this player, or
  the player-building row belongs to this player. There is no \<open>DISTINCT\<close>: an effect
  is returned once for every combination of joined rows that passes the filter.
  \<open>outer rows\<close> is what a row is paired with by a \<open>LEFT OUTER JOIN\<close> that matches
  \<open>rows\<close>: each of them, or \<open>NULL\<close> once if there is none.
\<close>

definition outer :: "'a list \<Rightarrow> 'a option list" where
  "outer rows = (if rows = [] then [None] else map Some rows)"

definition built_special :: "player \<Rightarrow> city_special \<Rightarrow> bool" where
  "built_special p s =
     (special_city s = city p \<and> special_variant s = variant p \<and> special_order s < specials_built p)"

definition player_buildings :: "game \<Rightarrow> building \<Rightarrow> nat list" where
  "player_buildings g b =
     filter (\<lambda>j. b \<in> set (buildings (player_set g ! j))) [0..<length (player_set g)]"

definition active_effects :: "rules \<Rightarrow> game \<Rightarrow> nat \<Rightarrow> effect list" where
  "active_effects R g i =
     [e. e \<leftarrow> Effect_objects R,
         cs \<leftarrow> outer (filter (\<lambda>s. special_effect s = e) (CitySpecial_objects R)),
         b \<leftarrow> outer (filter (\<lambda>b. building_effect b = e) (Building_objects R)),
         pb \<leftarrow> (case b of None \<Rightarrow> [None] | Some b \<Rightarrow> outer (player_buildings g b)),
         (case cs of None \<Rightarrow> False | Some s \<Rightarrow> built_special (player_set g ! i) s)
         \<or> pb = Some i]"

definition tradeable_resources :: "rules \<Rightarrow> player \<Rightarrow> (int \<times> string) list list" where
  "tradeable_resources R p =
     [(1, resource (city p))]
     # map (\<lambda>c. to_list c)
         (List.map_filter (\<lambda>b. production (building_effect b))
            (filter (\<lambda>b. kind b \<in> set (TRADEABLE R)) (buildings p)))"

fun trade_costs_loop ::
  "char \<Rightarrow> effect list \<Rightarrow> (string \<Rightarrow> int) \<Rightarrow> error + (string \<Rightarrow> int)" where
  "trade_costs_loop direction [] res = Inr res"
| "trade_costs_loop direction (e # es) res =
     (if (direction = CHR ''l'' \<and> left_trade e) \<or> (direction = CHR ''r'' \<and> right_trade e)
      then (case trade e of
              None \<Rightarrow> Inl AttributeError
            | Some c \<Rightarrow>
                trade_costs_loop direction es
                  (fold (\<lambda>(_, r) res. res(r := min (res r) (cost_money c))) (to_list c) res))
      else trade_costs_loop direction es res)"

definition trade_costs :: "rules \<Rightarrow> game \<Rightarrow> nat \<Rightarrow> char \<Rightarrow> error + (string \<Rightarrow> int)" where
  "trade_costs R g i direction =
     (if direction \<noteq> CHR ''l'' \<and> direction \<noteq> CHR ''r'' then Inl AssertionError
      else trade_costs_loop direction (active_effects R g i) (\<lambda>_. DEFAULT_TRADE_COST R))"

definition local_production :: "rules \<Rightarrow> game \<Rightarrow> nat \<Rightarrow> (int \<times> string) list list" where
  "local_production R g i =
     [(1, resource (city (player_set g ! i)))]
     # map (\<lambda>c. to_list c) (List.map_filter production (active_effects R g i))"

subsection \<open>Payment options\<close>

definition item_cost :: "item \<Rightarrow> cost" where
  "item_cost it = (case it of BuildingItem b \<Rightarrow> building_cost b | SpecialItem s \<Rightarrow> special_cost s)"

text \<open>
  \<open>item in self.buildings.all()\<close> compares rows of the building table: a city special is
  never among them. Only a building has the attribute \<open>free_having\<close>.
\<close>

definition item_in_buildings :: "item \<Rightarrow> building list \<Rightarrow> bool" where
  "item_in_buildings it bs =
     (case it of BuildingItem b \<Rightarrow> building_id b \<in> building_id ` set bs | SpecialItem s \<Rightarrow> False)"

definition payment_options :: "rules \<Rightarrow> game \<Rightarrow> nat \<Rightarrow> item \<Rightarrow> error + payment_option list" where
  "payment_options R g i it =
     (let self = player_set g ! i in
      if item_in_buildings it (buildings self) then Inr []
      else if (case it of BuildingItem b \<Rightarrow> free_having b \<in> building_id ` set (buildings self)
                        | SpecialItem s \<Rightarrow> False)
      then Inr [PaymentOption]
      else (case trade_costs R g i (CHR ''l'') of
              Inl e \<Rightarrow> Inl e
            | Inr costs_l \<Rightarrow>
               (case trade_costs R g i (CHR ''r'') of
                  Inl e \<Rightarrow> Inl e
                | Inr costs_r \<Rightarrow>
                    Inr (get_payments R (to_dict (item_cost it)) (money self)
                           (local_production R g i)
                           (tradeable_resources R (player_set g ! left_player g i)) costs_l
                           (tradeable_resources R (player_set g ! right_player g i)) costs_r))))"

text \<open>
  Modelled from the spec: \<open>economy.can_pay\<close> is not among the sources. The spec:
  it "selects, from the enumerated feasible options, the one whose trade amounts exactly
  match the caller-declared (trade_left, trade_right); returns it or signals
  infeasibility".
\<close>

definition can_pay :: "payment_option list \<Rightarrow> int \<Rightarrow> int \<Rightarrow> payment_option option" where
  "can_pay opts tleft tright =
     List.find (\<lambda>po. payment_trade_left po = tleft \<and> payment_trade_right po = tright) opts"

subsection \<open>Many-to-many relations and randomness\<close>

definition m2m_add :: "'a list \<Rightarrow> 'a list \<Rightarrow> 'a list" where
  "m2m_add rel xs = rel @ filter (\<lambda>x. x \<notin> set rel) (remdups xs)"

definition m2m_remove :: "'a list \<Rightarrow> 'a \<Rightarrow> 'a list" where
  "m2m_remove rel x = removeAll x rel"

text \<open>
  The random choices are inputs of the model. \<open>shuffled seed xs\<close> is the order that
  \<open>order_by('?')\<close> or \<open>random.shuffle\<close> produce for the random numbers \<open>seed\<close>:
  every element is inserted at a drawn position among those placed before.
  \<open>choice r xs\<close> is \<open>random.choice\<close> on a list that is not empty.
\<close>

fun shuffled :: "nat list \<Rightarrow> 'a list \<Rightarrow> 'a list" where
  "shuffled seed [] = []"
| "shuffled [] (x # xs) = x # shuffled [] xs"
| "shuffled (r # seed) (x # xs) =
     (let ys = shuffled seed xs; k = r mod Suc (length ys) in take k ys @ x # drop k ys)"

definition choice :: "nat \<Rightarrow> 'a list \<Rightarrow> 'a" where
  "choice r xs = xs ! (r mod length xs)"

record rnd =
  rnd_variant :: nat
  rnd_city :: nat
  rnd_options :: "nat list"
  rnd_personalities :: "nat list"
  rnd_shuffle :: "nat list"

text \<open>The start of a Python slice \<open>xs[k:]\<close> in a list of length \<open>n\<close>.\<close>

definition slice_start :: "nat \<Rightarrow> int \<Rightarrow> nat" where
  "slice_start n k = (if k < 0 then nat (max (int n + k) 0) else min (nat k) n)"

text \<open>A loop over the players that stops at the first exception.\<close>

fun for_each :: "('i \<Rightarrow> 's \<Rightarrow> 's outcome) \<Rightarrow> 'i list \<Rightarrow> 's \<Rightarrow> 's outcome" where
  "for_each f [] s = Done s"
| "for_each f (x # xs) s =
     (case f x s of Done s' \<Rightarrow> for_each f xs s' | Raised e s' \<Rightarrow> Raised e s')"

definition update_player :: "game \<Rightarrow> nat \<Rightarrow> (player \<Rightarrow> player) \<Rightarrow> game" where
  "update_player g i f = g\<lparr>player_set := (player_set g)[i := f (player_set g ! i)]\<rparr>"

subsection \<open>Joining and starting\<close>

definition get_player :: "game \<Rightarrow> nat \<Rightarrow> player option" where
  "get_player g u = List.find (\<lambda>p. user p = u) (player_set g)"

definition available_cities :: "rules \<Rightarrow> game \<Rightarrow> city list" where
  "available_cities R g = filter (\<lambda>c. c \<notin> city ` set (player_set g)) (City_objects R)"

definition is_joinable :: "rules \<Rightarrow> game \<Rightarrow> nat option \<Rightarrow> bool" where
  "is_joinable R g u =
     (let user_not_playing = (case u of None \<Rightarrow> True | Some v \<Rightarrow> get_player g v = None)
      in \<not> started g \<and> available_cities R g \<noteq> [] \<and> user_not_playing)"

text \<open>
  \<open>Player.Meta.unique_together\<close>: saving a player whose city or whose user is already
  taken in the game violates the constraint and raises.
\<close>

definition unique_together :: "game \<Rightarrow> player \<Rightarrow> bool" where
  "unique_together g p =
     (city p \<notin> city ` set (player_set g) \<and> user p \<notin> user ` set (player_set g))"

definition join :: "rules \<Rightarrow> rnd \<Rightarrow> game \<Rightarrow> nat \<Rightarrow> game outcome" where
  "join R rn g u =
     (if \<not> is_joinable R g None then Raised AssertionError g
      else let cities = available_cities R g; variants = allowed_variants g in
        if variants = [] then Raised AssertionError g
        else if cities = [] then Raised DoesNotExist g
        else let p = \<lparr>user = u, city = choice (rnd_city rn) cities,
                      variant = choice (rnd_variant rn) variants,
                      money = INITIAL_MONEY R, specials_built = 0, buildings = [],
                      special_free_building_ages_used = [], current_options = [],
                      option_picked = None, action = [], trade_left = 0, trade_right = 0\<rparr>
          in if \<not> unique_together g p then Raised IntegrityError g
             else Done (g\<lparr>player_set := player_set g @ [p]\<rparr>))"

definition is_startable :: "rules \<Rightarrow> game \<Rightarrow> bool" where
  "is_startable R g = (\<not> started g \<and> MINIMUM_PLAYERS R \<le> length (player_set g))"

text \<open>The loop of \<open>Game.shuffle\<close> that hands the options out.\<close>

fun deal :: "rules \<Rightarrow> nat list \<Rightarrow> build_option list \<Rightarrow> game \<Rightarrow> game outcome" where
  "deal R [] options g = Done g"
| "deal R (i # js) options g =
     (if current_options (player_set g ! i) \<noteq> [] then Raised AssertionError g
      else deal R js (drop (INITIAL_OPTIONS R) options)
             (update_player g i (\<lambda>p. p\<lparr>current_options :=
                 m2m_add (current_options p) (take (INITIAL_OPTIONS R) options)\<rparr>)))"

definition eligible_options :: "rules \<Rightarrow> game \<Rightarrow> build_option list" where
  "eligible_options R g =
     filter (\<lambda>opt. option_age opt = age g \<and> players_needed opt \<le> length (player_set g)
                 \<and> kind (building opt) \<noteq> PERSONALITY R) (BuildOption_objects R)"

definition eligible_personalities :: "rules \<Rightarrow> game \<Rightarrow> build_option list" where
  "eligible_personalities R g =
     filter (\<lambda>opt. option_age opt = age g \<and> players_needed opt \<le> length (player_set g)
                 \<and> kind (building opt) = PERSONALITY R) (BuildOption_objects R)"

definition actual_personalities :: "nat \<Rightarrow> nat \<Rightarrow> nat \<Rightarrow> nat \<Rightarrow> int" where
  "actual_personalities n required_options len_options len_personalities =
     (let required_personalities = int required_options - int len_options;
          recommended_personalities = 2 + int n
      in min (max recommended_personalities required_personalities) (int len_personalities))"

text \<open>The list of options that \<open>Game.shuffle\<close> builds before it assigns them.\<close>

definition shuffle_options :: "rules \<Rightarrow> rnd \<Rightarrow> game \<Rightarrow> build_option list" where
  "shuffle_options R rn g =
     (let n = length (player_set g);
          required_options = n * INITIAL_OPTIONS R;
          options = shuffled (rnd_options rn) (eligible_options R g);
          personalities = shuffled (rnd_personalities rn) (eligible_personalities R g);
          actual = actual_personalities n required_options (length options) (length personalities);
          personalities = take (slice_start (length personalities) actual) personalities;
          options = take (slice_start (length options)
                            (int required_options - int (length personalities))) options
                    @ personalities
      in shuffled (rnd_shuffle rn) options)"

definition shuffle :: "rules \<Rightarrow> rnd \<Rightarrow> game \<Rightarrow> game outcome" where
  "shuffle R rn g =
     (if \<not> started g then Raised AssertionError g
      else if finished g then Raised AssertionError g
      else let n = length (player_set g);
               required_options = n * INITIAL_OPTIONS R in
        if length (eligible_options R g) + length (eligible_personalities R g) < required_options
        then Raised DoesNotExist g
        else let options = shuffle_options R rn g in
          if length options \<noteq> required_options then Raised AssertionError g
          else deal R [0..<n] options g)"

definition start :: "rules \<Rightarrow> rnd \<Rightarrow> game \<Rightarrow> game outcome" where
  "start R rn g =
     (if \<not> is_startable R g then Raised AssertionError g
      else if finished g then Raised AssertionError g
      else if age g \<noteq> Age_first R then Raised AssertionError g
      else if discards g \<noteq> [] then Raised AssertionError g
      else if turn g \<noteq> 1 then Raised AssertionError g
      else shuffle R rn (g\<lparr>started := True\<rparr>))"

subsection \<open>Abilities of a player\<close>

definition BUILD_ACTION :: string where "BUILD_ACTION = ''build''"
definition FREE_ACTION :: string where "FREE_ACTION = ''free''"
definition SELL_ACTION :: string where "SELL_ACTION = ''sell''"
definition SPECIAL_ACTION :: string where "SPECIAL_ACTION = ''spec''"

definition ACTIONS :: "(string \<times> string) list" where
  "ACTIONS = [(BUILD_ACTION, ''Build''), (FREE_ACTION, ''Build(free, use special)''),
              (SELL_ACTION, ''Sell''), (SPECIAL_ACTION, ''Build special'')]"

definition next_special :: "rules \<Rightarrow> player \<Rightarrow> city_special option" where
  "next_special R p =
     (case sort_key special_order
             (filter (\<lambda>s. special_city s = city p \<and> special_variant s = variant p
                          \<and> specials_built p \<le> special_order s) (CitySpecial_objects R)) of
        [] \<Rightarrow> None
      | s # _ \<Rightarrow> Some s)"

text \<open>
  \<open>Player.can_build_free\<close>: its third test reads \<open>special_free_building_ages_used\<close>
  without \<open>self.\<close>; the name is bound neither in the method nor in the module, so
  reaching that line raises \<open>NameError\<close>.
\<close>

definition can_build_free :: "rules \<Rightarrow> game \<Rightarrow> nat \<Rightarrow> error + bool" where
  "can_build_free R g i =
     (if \<not> started g then Inr False
      else if filter free_building (active_effects R g i) = [] then Inr False
      else Inl NameError)"

definition can_build_special :: "rules \<Rightarrow> game \<Rightarrow> nat \<Rightarrow> error + bool" where
  "can_build_special R g i =
     (if \<not> started g then Inr False
      else case next_special R (player_set g ! i) of
             None \<Rightarrow> Inr False
           | Some special \<Rightarrow>
               (case payment_options R g i (SpecialItem special) of
                  Inl e \<Rightarrow> Inl e
                | Inr opts \<Rightarrow> Inr (opts \<noteq> [])))"

text \<open>
  \<open>Player.military\<close> returns what \<open>aggregate\<close> returns: a dictionary with the one
  key \<open>military__sum\<close>; the model keeps its value, which is \<open>None\<close> when the query
  of the active effects has no row. Python 2 compares two such dictionaries by comparing
  their values, and \<open>None\<close> is smaller than every number: \<open>py_less\<close>.
\<close>

definition military :: "rules \<Rightarrow> game \<Rightarrow> nat \<Rightarrow> nat option" where
  "military R g i =
     (case active_effects R g i of
        [] \<Rightarrow> None
      | e # es \<Rightarrow> Some (sum_list (map effect_military (e # es))))"

fun py_less :: "nat option \<Rightarrow> nat option \<Rightarrow> bool" where
  "py_less None None = False"
| "py_less None (Some y) = True"
| "py_less (Some x) None = False"
| "py_less (Some x) (Some y) = (x < y)"

subsection \<open>Science score\<close>

text \<open>
  \<open>collections.namedtuple(typename, field_names)\<close> of Python 2 on a string: the names
  are the words between commas and white space; each must consist of letters of the
  alphabet, digits and underscores, be no keyword and start with neither a digit nor an
  underscore, and no name may come twice; otherwise it raises \<open>ValueError\<close> (for a
  character outside ASCII it is \<open>UnicodeEncodeError\<close>, a \<open>ValueError\<close>).
  A character of the model is a code point below 256.
\<close>

definition isspace :: "char \<Rightarrow> bool" where
  "isspace c = (of_char c \<in> set [9, 10, 11, 12, 13, 28, 29, 30, 31, 32, 133, 160 :: nat])"

definition isdigit :: "char \<Rightarrow> bool" where
  "isdigit c = (48 \<le> (of_char c :: nat) \<and> (of_char c :: nat) \<le> 57)"

definition isalpha :: "char \<Rightarrow> bool" where
  "isalpha c = ((65 \<le> (of_char c :: nat) \<and> (of_char c :: nat) \<le> 90)
               \<or> (97 \<le> (of_char c :: nat) \<and> (of_char c :: nat) \<le> 122))"

definition isalnum :: "char \<Rightarrow> bool" where
  "isalnum c = (isalpha c \<or> isdigit c)"

text \<open>\<open>s.split()\<close>; the first argument is the word that is being read.\<close>

fun str_split :: "string \<Rightarrow> string \<Rightarrow> string list" where
  "str_split w [] = (if w = [] then [] else [w])"
| "str_split w (c # cs) =
     (if isspace c then (if w = [] then str_split [] cs else w # str_split [] cs)
      else str_split (w @ [c]) cs)"

fun str_join :: "string \<Rightarrow> string list \<Rightarrow> string" where
  "str_join sep [] = []"
| "str_join sep [x] = x"
| "str_join sep (x # y # ys) = x @ sep @ str_join sep (y # ys)"

definition kwlist :: "string list" where
  "kwlist = [''and'', ''as'', ''assert'', ''break'', ''class'', ''continue'', ''def'', ''del'',
     ''elif'', ''else'', ''except'', ''exec'', ''finally'', ''for'', ''from'', ''global'', ''if'',
     ''import'', ''in'', ''is'', ''lambda'', ''not'', ''or'', ''pass'', ''print'', ''raise'',
     ''return'', ''try'', ''while'', ''with'', ''yield'']"

definition field_name :: "string \<Rightarrow> bool" where
  "field_name name =
     (name \<noteq> [] \<and> list_all (\<lambda>c. isalnum c \<or> c = CHR ''_'') name \<and> name \<notin> set kwlist
      \<and> \<not> isdigit (hd name) \<and> hd name \<noteq> CHR ''_'')"

definition namedtuple :: "string \<Rightarrow> error + string list" where
  "namedtuple field_names =
     (let names = str_split [] (map (\<lambda>c. if c = CHR '','' then CHR '' '' else c) field_names)
      in if list_all field_name names \<and> distinct names then Inr names else Inl ValueError)"

text \<open>
  A \<open>ScienceScore\<close> tuple is the list of its counts, in the order of its fields.
  \<open>replace_science fields b name\<close> is
  \<open>b._replace(**{name: getattr(b, name) + 1})\<close> for a \<open>name\<close> that is a field.
  The set of combinations is a list without repetition.
\<close>

definition replace_science :: "string list \<Rightarrow> nat list \<Rightarrow> string \<Rightarrow> nat list" where
  "replace_science names b name = map (\<lambda>(k, v). if k = name then v + 1 else v) (zip names b)"

definition science_value :: "rules \<Rightarrow> nat list \<Rightarrow> nat" where
  "science_value R s = Min (set s) * SCIENCE_SCORE_PER_GROUP R + sum_list (map (\<lambda>amount. amount ^ 2) s)"

definition science_options :: "rules \<Rightarrow> game \<Rightarrow> nat \<Rightarrow> string list list" where
  "science_options R g i = filter (\<lambda>menu. menu \<noteq> []) (map sciences (active_effects R g i))"

definition science_combinations :: "string list \<Rightarrow> string list list \<Rightarrow> nat list list" where
  "science_combinations names options =
     fold (\<lambda>menu oldcombinations.
             remdups (concat (map (\<lambda>science. map (\<lambda>b. replace_science names b science)
                                                oldcombinations) menu)))
          options [replicate (length names) 0]"

text \<open>
  \<open>Player.science_score\<close>. \<open>sciences\<close> are the names of the science table in the
  order of the query. The tuple class has the fields that \<open>namedtuple\<close> finds in the
  names joined by blanks; building the zero tuple from one \<open>0\<close> for every science
  raises \<open>TypeError\<close> when there are more or fewer fields than sciences. Every menu
  of \<open>options\<close> is non-empty, so the set of combinations is never empty and the
  loops reach \<open>getattr(b, science.name)\<close> for every offered science: it raises
  \<open>AttributeError\<close> for a name that is not a field (such a name is empty or has a
  blank or a comma in it, and no attribute of a tuple is called so).
  \<open>min(s)\<close> raises \<open>ValueError\<close> on the tuple without fields.
\<close>

definition science_score :: "rules \<Rightarrow> game \<Rightarrow> nat \<Rightarrow> error + nat" where
  "science_score R g i =
     (let sciences = Science_objects R in
      case namedtuple (str_join '' '' sciences) of
        Inl e \<Rightarrow> Inl e
      | Inr flds \<Rightarrow>
          if length flds \<noteq> length sciences then Inl TypeError
          else let options = science_options R g i in
            if list_ex (\<lambda>name. name \<notin> set flds) (concat options) then Inl AttributeError
            else if flds = [] then Inl ValueError
            else Inr (fold (\<lambda>s result. max result (science_value R s))
                        (science_combinations flds options) 0))"

subsection \<open>Playing and applying an action\<close>

text \<open>
  The last three assertions of \<open>Player.play\<close> compare \<open>option\<close>, a \<open>BuildOption\<close> row,
  with the action names. A model instance is never equal to a string, so \<open>!=\<close> holds and
  the right-hand side of \<open>or\<close> is not evaluated.
\<close>

definition option_ne :: "build_option \<Rightarrow> string \<Rightarrow> bool" where
  "option_ne opt a = True"

definition lazy_or :: "bool \<Rightarrow> error + bool \<Rightarrow> error + bool" where
  "lazy_or a b = (if a then Inr True else b)"

text \<open>\<open>assert c\<close>: the exception that it raises, if any.\<close>

definition assert :: "error + bool \<Rightarrow> error option" where
  "assert c = (case c of Inl e \<Rightarrow> Some e | Inr b \<Rightarrow> if b then None else Some AssertionError)"

definition reset_action :: "player \<Rightarrow> player" where
  "reset_action p = p\<lparr>action := [], option_picked := None, trade_left := 0, trade_right := 0\<rparr>"

text \<open>
  \<open>option_picked\<close> is \<open>None\<close> only together with an empty action (\<open>play\<close> and
  \<open>reset_action\<close> set both); where the code would use \<open>None\<close> as an option the model
  raises. \<open>next_special\<close> may well be \<open>None\<close>: \<open>payment_options(None)\<close> passes the
  two tests and raises \<open>AttributeError\<close> on \<open>item.cost\<close>.

  \<open>Player.pre_apply_action\<close> runs in the first loop of \<open>Game.end_of_turn\<close>. That
  loop saves no player, so the object \<open>self\<close> has the columns of its row.
  \<open>self.money -= payment.money\<close> changes the object only: the method does not save
  it and the second loop of \<open>end_of_turn\<close> loads the players again. What is written is
  the row of the relation \<open>buildings\<close>.
\<close>

definition pre_apply_action :: "rules \<Rightarrow> game \<Rightarrow> nat \<Rightarrow> game outcome" where
  "pre_apply_action R g i =
     (let self = player_set g ! i in
      if action self = [] then Raised AssertionError g
      else if action self = BUILD_ACTION \<or> action self = FREE_ACTION then
        (case (if action self = BUILD_ACTION
               then (case option_picked self of
                       None \<Rightarrow> Inl AttributeError
                     | Some opt \<Rightarrow> Inr (BuildingItem (building opt)))
               else (case next_special R self of
                       None \<Rightarrow> Inl AttributeError
                     | Some special \<Rightarrow> Inr (SpecialItem special))) of
           Inl e \<Rightarrow> Raised e g
         | Inr it \<Rightarrow>
            (case payment_options R g i it of
               Inl e \<Rightarrow> Raised e g
             | Inr opts \<Rightarrow>
                (case can_pay opts (trade_left self) (trade_right self) of
                   None \<Rightarrow> Raised AssertionError g
                 | Some payment \<Rightarrow>
                    (let self = self\<lparr>money := money self - payment_money payment\<rparr>
                     in case option_picked self of
                          None \<Rightarrow> Raised AttributeError g
                        | Some opt \<Rightarrow>
                            Done (update_player g i
                                    (\<lambda>p. p\<lparr>buildings := m2m_add (buildings p) [building opt]\<rparr>))))))
      else Done g)"

text \<open>
  \<open>Player.apply_action\<close> runs in the second loop of \<open>end_of_turn\<close>, on the object
  \<open>self\<close> that the query of that loop has loaded before the first player was handled:
  its columns are those of the row at the start of the loop, whatever other players have
  saved into the row since.

  \<open>save_player g i obj\<close> is \<open>obj.save()\<close>: it writes the columns of the object over
  those of row \<open>i\<close> and leaves the relations of the row alone.
  \<open>seen_by g i obj\<close> is the player that the methods of the object read: the columns
  of the object with the relations of its row. A method of the object that queries the
  store (\<open>can_build_free\<close>, \<open>can_build_special\<close>) is evaluated in
  \<open>save_player g i obj\<close>, the store in which the player is as the object sees it.
\<close>

definition seen_by :: "game \<Rightarrow> nat \<Rightarrow> player \<Rightarrow> player" where
  "seen_by g i obj =
     obj\<lparr>buildings := buildings (player_set g ! i),
         special_free_building_ages_used := special_free_building_ages_used (player_set g ! i),
         current_options := current_options (player_set g ! i)\<rparr>"

definition save_player :: "game \<Rightarrow> nat \<Rightarrow> player \<Rightarrow> game" where
  "save_player g i obj = g\<lparr>player_set := (player_set g)[i := seen_by g i obj]\<rparr>"

text \<open>
  \<open>self.left_player().money += amount\<close> followed by \<open>self.left_player().save()\<close>,
  and the same to the right. \<open>get_previous_in_order\<close> and \<open>get_next_in_order\<close> keep
  the object that they have loaded, so both calls give the same object and the credit is
  saved. At an end of the order each call runs the query of the \<open>except\<close> branch and
  gets an object of its own: the credited one is dropped and the saved one is as it was
  loaded, so the row does not change.
\<close>

definition credit :: "game \<Rightarrow> nat option \<Rightarrow> int \<Rightarrow> game" where
  "credit g in_order amount =
     (case in_order of
        Some j \<Rightarrow> update_player g j (\<lambda>p. p\<lparr>money := money p + amount\<rparr>)
      | None \<Rightarrow> g)"

definition settle_trade :: "game \<Rightarrow> nat \<Rightarrow> player \<Rightarrow> game \<times> player" where
  "settle_trade g i self =
     (let (g, self) =
            (if trade_left self \<noteq> 0
             then (credit g (get_previous_in_order g i) (trade_left self),
                   self\<lparr>money := money self - trade_left self\<rparr>)
             else (g, self))
      in if trade_right self \<noteq> 0
         then (credit g (get_next_in_order g i) (trade_right self),
               self\<lparr>money := money self - trade_right self\<rparr>)
         else (g, self))"

text \<open>
  \<open>self.money += effect.money(self, self.left_player(), self.right_player())\<close>: the
  neighbors are as they are saved at that moment.
\<close>

definition earn :: "rules \<Rightarrow> effect \<Rightarrow> game \<Rightarrow> nat \<Rightarrow> player \<Rightarrow> player" where
  "earn R e g i self =
     self\<lparr>money := money self + Effect_money R e (seen_by g i self)
                                    (player_set g ! left_player g i)
                                    (player_set g ! right_player g i)\<rparr>"

definition apply_branch :: "rules \<Rightarrow> game \<Rightarrow> nat \<Rightarrow> player \<Rightarrow> game outcome" where
  "apply_branch R g i self =
     (if action self = SELL_ACTION then
        (case option_picked self of
           None \<Rightarrow> Raised AttributeError g
         | Some opt \<Rightarrow>
             Done (save_player (g\<lparr>discards := m2m_add (discards g) [opt]\<rparr>) i
                     (self\<lparr>money := money self + SELL_VALUE R\<rparr>)))
      else if action self = BUILD_ACTION then
        (case settle_trade g i self of
           (g', self') \<Rightarrow>
             (case option_picked self of
                None \<Rightarrow> Raised AttributeError g'
              | Some opt \<Rightarrow>
                  Done (save_player g' i (earn R (building_effect (building opt)) g' i self'))))
      else if action self = FREE_ACTION then
        (case assert (can_build_free R (save_player g i self) i) of
           Some e \<Rightarrow> Raised e g
         | None \<Rightarrow> Raised NameError g)
      else if action self = SPECIAL_ACTION then
        (case assert (can_build_special R (save_player g i self) i) of
           Some e \<Rightarrow> Raised e g
         | None \<Rightarrow>
            (case next_special R self of
               None \<Rightarrow> Raised AttributeError g
             | Some special \<Rightarrow>
                 (case settle_trade g i self of
                    (g', self') \<Rightarrow>
                      Done (save_player g' i
                              ((earn R (special_effect special) g' i self')
                                 \<lparr>specials_built := special_order special + 1\<rparr>)))))
      else Raised AssertionError g)"

definition apply_action :: "rules \<Rightarrow> game \<Rightarrow> nat \<Rightarrow> player \<Rightarrow> game outcome" where
  "apply_action R g i self =
     (if action self = [] then Raised AssertionError g
      else case apply_branch R g i self of
             Raised e g' \<Rightarrow> Raised e g'
           | Done g' \<Rightarrow>
              (case option_picked self of
                 None \<Rightarrow> Raised AttributeError g'
               | Some opt \<Rightarrow>
                   Done (update_player g' i
                           (\<lambda>p. p\<lparr>current_options := m2m_remove (current_options p) opt\<rparr>))))"

subsection \<open>End of age and end of turn\<close>

definition battle_score :: "battle_result \<Rightarrow> int" where
  "battle_score b =
     (if result b = CHR ''v'' then victory_score (battle_age b) else defeat_score (battle_age b))"

definition fight :: "rules \<Rightarrow> nat \<Rightarrow> nat \<times> char \<Rightarrow> game \<Rightarrow> game" where
  "fight R i nd g =
     (let local = military R g i;
          foreign = military R g (fst nd)
      in if local \<noteq> foreign
         then g\<lparr>battleresult_set := battleresult_set g @
                  [\<lparr>owner = i, battle_age = age g, battle_direction = snd nd,
                    result = (if py_less foreign local then CHR ''v'' else CHR ''d'')\<rparr>]\<rparr>
         else g)"

definition discard_options :: "nat \<Rightarrow> game \<Rightarrow> game" where
  "discard_options i g =
     update_player (g\<lparr>discards := m2m_add (discards g) (current_options (player_set g ! i))\<rparr>) i
       (\<lambda>p. p\<lparr>current_options := []\<rparr>)"

definition battles :: "rules \<Rightarrow> game \<Rightarrow> game" where
  "battles R g =
     fold (\<lambda>i g. fold (fight R i) [(left_player g i, CHR ''l''), (right_player g i, CHR ''r'')] g)
       [0..<length (player_set g)] g"

definition end_of_age :: "rules \<Rightarrow> rnd \<Rightarrow> game \<Rightarrow> game outcome" where
  "end_of_age R rn g =
     (let g1 = fold discard_options [0..<length (player_set g)] g;
          g2 = battles R g1
      in case Age_next R (age g2) of
           None \<Rightarrow> Done (g2\<lparr>finished := True\<rparr>)
         | Some next_age \<Rightarrow> shuffle R rn (g2\<lparr>age := next_age, turn := 1\<rparr>))"

text \<open>The rotation of \<open>Game.end_of_turn\<close>; \<open>None\<close> where its assertion fails.\<close>

definition rotate_options :: "char \<Rightarrow> 'a list \<Rightarrow> 'a list option" where
  "rotate_options direction opts =
     (if direction = CHR ''l'' then Some (drop 1 opts @ take 1 opts)
      else if direction = CHR ''r''
      then Some (drop (length opts - 1) opts @ take (length opts - 1) opts)
      else None)"

definition end_of_turn :: "rules \<Rightarrow> rnd \<Rightarrow> game \<Rightarrow> game outcome" where
  "end_of_turn R rn g =
     (let ps = [0..<length (player_set g)] in
      case for_each (\<lambda>i g. pre_apply_action R g i) ps g of
        Raised e g1 \<Rightarrow> Raised e g1
      | Done g1 \<Rightarrow>
         (case for_each (\<lambda>(i, self) g. apply_action R g i self) (zip ps (player_set g1)) g1 of
            Raised e g2 \<Rightarrow> Raised e g2
          | Done g2 \<Rightarrow>
             (case rotate_options (age_direction (age g2)) (map current_options (player_set g2)) of
                None \<Rightarrow> Raised AssertionError g2
              | Some opts \<Rightarrow>
                 (let g3 = g2\<lparr>player_set :=
                             map (\<lambda>(p, os). p\<lparr>current_options := m2m_add [] os\<rparr>)
                               (zip (player_set g2) opts)\<rparr>;
                      g4 = g3\<lparr>turn := turn g3 + 1\<rparr>
                  in case (if TURN_COUNT R < turn g4 then end_of_age R rn g4 else Done g4) of
                       Raised e g5 \<Rightarrow> Raised e g5
                     | Done g5 \<Rightarrow> Done (g5\<lparr>player_set := map reset_action (player_set g5)\<rparr>)))))"

definition missing_players :: "game \<Rightarrow> player list" where
  "missing_players g = filter (\<lambda>p. action p = []) (player_set g)"

definition turn_check :: "rules \<Rightarrow> rnd \<Rightarrow> game \<Rightarrow> game outcome" where
  "turn_check R rn g = (if missing_players g = [] then end_of_turn R rn g else Done g)"

definition play ::
  "rules \<Rightarrow> rnd \<Rightarrow> game \<Rightarrow> nat \<Rightarrow> string \<Rightarrow> build_option \<Rightarrow> int \<Rightarrow> int \<Rightarrow> game outcome" where
  "play R rn g i act opt tleft tright =
     (if act \<notin> set (map fst ACTIONS) then Raised AssertionError g
      else if opt \<notin> set (current_options (player_set g ! i)) then Raised AssertionError g
      else case assert (lazy_or (option_ne opt FREE_ACTION) (can_build_free R g i)) of
        Some e \<Rightarrow> Raised e g
      | None \<Rightarrow>
       (case assert (lazy_or (option_ne opt SPECIAL_ACTION) (can_build_special R g i)) of
          Some e \<Rightarrow> Raised e g
        | None \<Rightarrow>
         (case assert (lazy_or (option_ne opt BUILD_ACTION)
                         (map_sum id (\<lambda>opts. can_pay opts tleft tright \<noteq> None)
                            (payment_options R g i (BuildingItem (building opt))))) of
            Some e \<Rightarrow> Raised e g
          | None \<Rightarrow>
              turn_check R rn
                (update_player g i
                   (\<lambda>p. p\<lparr>action := act, option_picked := Some opt,
                          trade_left := tleft, trade_right := tright\<rparr>)))))"

subsection \<open>Reachable states\<close>

fun outcome_state :: "'s outcome \<Rightarrow> 's" where
  "outcome_state (Done s) = s"
| "outcome_state (Raised e s) = s"

text \<open>A new \<open>Game\<close> row has the defaults of its fields and no player.\<close>

definition Game_new :: "rules \<Rightarrow> nat list \<Rightarrow> game" where
  "Game_new R variants =
     \<lparr>allowed_variants = variants, age = Age_first R, turn = 1, discards = [],
      started = False, finished = False, special_use_discards_turn = False,
      player_set = [], battleresult_set = []\<rparr>"

text \<open>
  The states of a game: a new game, and what \<open>join\<close>, \<open>start\<close> and \<open>play\<close> leave
  behind, whether they return or raise. The other methods that alter data
  (\<open>shuffle\<close>, \<open>end_of_turn\<close>, \<open>end_of_age\<close>, \<open>turn_check\<close>) run inside these three.
\<close>

inductive reachable :: "rules \<Rightarrow> game \<Rightarrow> bool" for R :: rules where
  reachable_new: "reachable R (Game_new R variants)"
| reachable_join: "reachable R g \<Longrightarrow> reachable R (outcome_state (join R rn g u))"
| reachable_start: "reachable R g \<Longrightarrow> reachable R (outcome_state (start R rn g))"
| reachable_play: "reachable R g \<Longrightarrow> i < length (player_set g) \<Longrightarrow>
     reachable R (outcome_state (play R rn g i act opt tleft tright))"

subsection \<open>The science score as the spec words it\<close>


definition spec_counts :: "string list \<Rightarrow> string list \<Rightarrow> nat list" where
  "spec_counts names picks = map (\<lambda>name. count_list picks name) names"



subsection \<open>The dealing rule as the spec words it\<close>

text \<open>\<open>clip(x, lo, hi)\<close>: \<open>x\<close> brought into the interval from \<open>lo\<close> to \<open>hi\<close>.\<close>

definition spec_clip :: "int \<Rightarrow> int \<Rightarrow> int \<Rightarrow> int" where
  "spec_clip x lo hi = (if x < lo then lo else if hi < x then hi else x)"

text \<open>
  The options of the catalog that are eligible for a game: those of the current age whose
  minimum of players is met. The available personalities are the eligible options of
  the personality kind, the required personalities are what the eligible options of the
  other kinds leave open of \<open>n \<times> INITIAL_OPTIONS\<close>, and the personalities used are
  those in the hands after the deal.
\<close>

definition spec_eligible :: "rules \<Rightarrow> game \<Rightarrow> build_option \<Rightarrow> bool" where
  "spec_eligible R g opt =
     (option_age opt = age g \<and> players_needed opt \<le> length (player_set g))"

definition spec_available_personalities :: "rules \<Rightarrow> game \<Rightarrow> nat" where
  "spec_available_personalities R g =
     length (filter (\<lambda>opt. spec_eligible R g opt \<and> kind (building opt) = PERSONALITY R)
               (BuildOption_objects R))"

definition spec_required_personalities :: "rules \<Rightarrow> game \<Rightarrow> int" where
  "spec_required_personalities R g =
     int (length (player_set g) * INITIAL_OPTIONS R)
     - int (length (filter (\<lambda>opt. spec_eligible R g opt \<and> kind (building opt) \<noteq> PERSONALITY R)
                      (BuildOption_objects R)))"

definition dealt :: "game \<Rightarrow> build_option list" where
  "dealt g = concat (map current_options (player_set g))"

definition spec_personalities_used :: "rules \<Rightarrow> game \<Rightarrow> nat" where
  "spec_personalities_used R g =
     length (filter (\<lambda>opt. kind (building opt) = PERSONALITY R) (dealt g))"

section \<open>Auxiliary notions for the proofs\<close>

text \<open>Pointwise sum of two count vectors, and the vector that counts one pick.\<close>

definition add_counts :: "nat list \<Rightarrow> nat list \<Rightarrow> nat list" where
  "add_counts b c = map (\<lambda>(v, k). v + k) (zip b c)"

definition unit_counts :: "string list \<Rightarrow> string \<Rightarrow> nat list" where
  "unit_counts names s = map (\<lambda>name. if name = s then 1 else 0) names"

text \<open>
  What the two phases of an action leave alone: \<open>seat\<close> forgets the money, the buildings,
  the specials and the hand of a player, \<open>frame\<close> forgets these for every player, and the
  discard pile.
\<close>

definition seat :: "player \<Rightarrow> player" where
  "seat p = p\<lparr>money := 0, buildings := [], specials_built := 0, current_options := []\<rparr>"

definition frame :: "game \<Rightarrow> game" where
  "frame g = g\<lparr>player_set := map seat (player_set g), discards := []\<rparr>"

text \<open>
  The battle token that \<open>end_of_age\<close> creates for player \<open>i\<close> against the neighbor
  and direction \<open>nd\<close>, if any, and the tokens of all players in the order of creation.
\<close>

definition battle_token :: "rules \<Rightarrow> game \<Rightarrow> nat \<Rightarrow> nat \<times> char \<Rightarrow> battle_result list" where
  "battle_token R g i nd =
     (if military R g i \<noteq> military R g (fst nd)
      then [\<lparr>owner = i, battle_age = age g, battle_direction = snd nd,
             result = (if py_less (military R g (fst nd)) (military R g i)
                       then CHR ''v'' else CHR ''d'')\<rparr>]
      else [])"

definition battle_tokens :: "rules \<Rightarrow> game \<Rightarrow> battle_result list" where
  "battle_tokens R g =
     concat (map (\<lambda>i. battle_token R g i (left_player g i, CHR ''l'')
                      @ battle_token R g i (right_player g i, CHR ''r''))
               [0..<length (player_set g)])"

section \<open>A small catalog and games over it\<close>

text \<open>
  Three cities, one age played to the left, twenty-one options for three players and the
  sciences A, B and C. Every building has an effect row of its own, with the key of the
  building. Besides the buildings of the options there are seven more: 201, and 202 that
  is free for the owner of 201; 203 with the free-build ability; 204 and 205 that offer
  the sciences A or B and B or C; 206 with military power 2 and 207 with military power 0.
  No payment is needed in these games, so the payment solver of the example offers
  nothing.
\<close>

definition Effect_new :: effect where
  "Effect_new = \<lparr>effect_id = 0, production = None, effect_score = 0, effect_military = 0, sciences = [],
     trade = None, left_trade = False, right_trade = False, kind_payed = None,
     money_per_neighbor_building = 0, money_per_local_building = 0, kinds_scored = [],
     score_per_neighbor_building = 0, score_per_local_building = 0,
     money_per_local_special = 0, score_per_local_special = 0,
     money_per_neighbor_special = 0, score_per_neighbor_special = 0,
     score_per_neighbor_defeat = 0, free_building = False, extra_turn = False,
     use_discards = False, copy_personality = False\<rparr>"

definition ex_age :: age where
  "ex_age = \<lparr>age_id = 1, age_name = ''I'', age_order = 0, victory_score = 1,
     defeat_score = - 1, age_direction = CHR ''l''\<rparr>"

definition ex_city :: "nat \<Rightarrow> city" where
  "ex_city k = \<lparr>city_id = k, city_name = ''city'', resource = ''wood''\<rparr>"

definition ex_building :: "nat \<Rightarrow> nat \<Rightarrow> effect \<Rightarrow> building" where
  "ex_building k f e = \<lparr>building_id = k, building_name = ''hall'', kind = ''civ'',
     building_effect = e\<lparr>effect_id := k\<rparr>, building_cost = \<lparr>cost_money = 0, cost_lines = []\<rparr>, free_having = f\<rparr>"

definition ex_option :: "nat \<Rightarrow> build_option" where
  "ex_option k = \<lparr>option_id = k, players_needed = 3, building = ex_building k k Effect_new,
     option_age = ex_age\<rparr>"

definition ex_hand1 :: "nat list" where
  "ex_hand1 = [101, 102, 103, 104, 105, 106, 107]"

definition ex_hand2 :: "nat list" where
  "ex_hand2 = [108, 109, 110, 111, 112, 113, 114]"

definition ex_hand3 :: "nat list" where
  "ex_hand3 = [115, 116, 117, 118, 119, 120, 121]"

definition ex_buildings :: "building list" where
  "ex_buildings =
     map (\<lambda>k. ex_building k k Effect_new) (ex_hand1 @ ex_hand2 @ ex_hand3)
     @ [ex_building 201 201 Effect_new,
        ex_building 202 201 Effect_new,
        ex_building 203 203 (Effect_new\<lparr>free_building := True\<rparr>),
        ex_building 204 204 (Effect_new\<lparr>sciences := [''A'', ''B'']\<rparr>),
        ex_building 205 205 (Effect_new\<lparr>sciences := [''B'', ''C'']\<rparr>),
        ex_building 206 206 (Effect_new\<lparr>effect_military := 2\<rparr>),
        ex_building 207 207 Effect_new]"

definition ex_rules :: rules where
  "ex_rules = \<lparr>MINIMUM_PLAYERS = 3, INITIAL_OPTIONS = 7, TURN_COUNT = 6, INITIAL_MONEY = 3,
     SELL_VALUE = 3, DEFAULT_TRADE_COST = 2, SCIENCE_SCORE_PER_GROUP = 7,
     PERSONALITY = ''per'', TRADEABLE = [''bas'', ''cpx''],
     City_objects = map ex_city [11, 12, 13],
     Effect_objects = map building_effect ex_buildings, CitySpecial_objects = [],
     Building_objects = ex_buildings,
     BuildOption_objects = map ex_option (ex_hand1 @ ex_hand2 @ ex_hand3),
     Science_objects = [''A'', ''B'', ''C''],
     Age_first = ex_age, Age_next = (\<lambda>a. None),
     Effect_money = (\<lambda>e p l r. case production e of None \<Rightarrow> 0 | Some c \<Rightarrow> cost_money c),
     get_payments = (\<lambda>c m lp tl cl tr cr. [])\<rparr>"

definition ex_rnd :: rnd where
  "ex_rnd = \<lparr>rnd_variant = 0, rnd_city = 0, rnd_options = [], rnd_personalities = [],
     rnd_shuffle = []\<rparr>"

definition ex_player :: "nat \<Rightarrow> player" where
  "ex_player k = \<lparr>user = k, city = ex_city k, variant = 0, money = 3, specials_built = 0,
     buildings = [], special_free_building_ages_used = [], current_options = [],
     option_picked = None, action = [], trade_left = 0, trade_right = 0\<rparr>"

text \<open>Three players have joined; then the game is started and the hands are dealt.\<close>

definition ex_game0 :: game where
  "ex_game0 = (Game_new ex_rules [0])\<lparr>player_set := map ex_player [11, 12, 13]\<rparr>"

definition ex_dealt :: "nat \<Rightarrow> nat list \<Rightarrow> player" where
  "ex_dealt k hand = (ex_player k)\<lparr>current_options := map ex_option hand\<rparr>"

definition ex_game1 :: game where
  "ex_game1 = ex_game0\<lparr>started := True,
     player_set := [ex_dealt 11 ex_hand1, ex_dealt 12 ex_hand2, ex_dealt 13 ex_hand3]\<rparr>"

text \<open>A catalog with options for two hands only.\<close>

definition ex_rules_short :: rules where
  "ex_rules_short = ex_rules\<lparr>BuildOption_objects := map ex_option (ex_hand1 @ ex_hand2)\<rparr>"


text \<open>
  The first player owns a building with the free-build ability and has picked the free
  build of an option of the hand.
\<close>

definition ex_game_free :: game where
  "ex_game_free =
     update_player ex_game1 0
       (\<lambda>p. p\<lparr>buildings := [ex_building 203 203 (Effect_new\<lparr>free_building := True\<rparr>)],
              action := FREE_ACTION, option_picked := Some (ex_option 101)\<rparr>)"


text \<open>A catalog whose only science has a name of two words.\<close>

definition ex_rules_words :: rules where
  "ex_rules_words = ex_rules\<lparr>Science_objects := [''Test Science'']\<rparr>"

text \<open>The first player owns a building of military power 2; nobody else has any.\<close>

definition ex_game_war :: game where
  "ex_game_war =
     update_player ex_game1 0
       (\<lambda>p. p\<lparr>buildings := [ex_building 206 206 (Effect_new\<lparr>effect_military := 2\<rparr>)]\<rparr>)"

text \<open>The first player owns the civilian building 207; nobody else owns a building.\<close>

definition ex_game_civil :: game where
  "ex_game_civil =
     update_player ex_game1 0 (\<lambda>p. p\<lparr>buildings := [ex_building 207 207 Effect_new]\<rparr>)"

text \<open>
  A catalog with eighteen options that are no personalities and six personalities, and
  the hands that the deal for three players makes of it.
\<close>

definition ex_personality :: "nat \<Rightarrow> build_option" where
  "ex_personality k =
     \<lparr>option_id = k, players_needed = 3,
      building = (ex_building k k Effect_new)\<lparr>kind := ''per''\<rparr>, option_age = ex_age\<rparr>"

definition ex_rules_per :: rules where
  "ex_rules_per = ex_rules\<lparr>BuildOption_objects :=
     map ex_option (ex_hand1 @ ex_hand2 @ [115, 116, 117, 118])
     @ map ex_personality [301, 302, 303, 304, 305, 306]\<rparr>"

definition ex_game_per :: game where
  "ex_game_per = ex_game0\<lparr>started := True,
     player_set := [ex_dealt 11 ex_hand1, ex_dealt 12 ex_hand2,
       (ex_player 13)\<lparr>current_options := map ex_option [115, 116]
                         @ map ex_personality [301, 302, 303, 304, 305]\<rparr>]\<rparr>"

text \<open>
  A catalog in which the city of the first player has a special that costs 2, with a
  payment solver that offers to pay these 2 in money.
\<close>

definition ex_special :: city_special where
  "ex_special = \<lparr>special_city = ex_city 11, special_variant = 0, special_order = 0,
     special_cost = \<lparr>cost_money = 2, cost_lines = []\<rparr>,
     special_effect = Effect_new\<lparr>effect_id := 900\<rparr>\<rparr>"

definition ex_rules_special :: rules where
  "ex_rules_special = ex_rules\<lparr>
     Effect_objects := Effect_objects ex_rules @ [special_effect ex_special],
     CitySpecial_objects := [ex_special],
     get_payments := (\<lambda>c m lp tl cl tr cr.
        [\<lparr>payment_money = 2, payment_trade_left = 0, payment_trade_right = 0\<rparr>])\<rparr>"

section \<open>Notions for the course of a game\<close>




text \<open>
  The invariant of the turn counter, together with what its proof needs: the hands are
  empty before the start and after the end of the game.
\<close>

definition turn_invariant :: "rules \<Rightarrow> game \<Rightarrow> bool" where
  "turn_invariant R g \<longleftrightarrow>
     (finished g \<longrightarrow> started g \<and> turn g = TURN_COUNT R + 1)
     \<and> (\<not> finished g \<longrightarrow> 1 \<le> turn g \<and> turn g \<le> TURN_COUNT R)
     \<and> (\<not> started g \<or> finished g \<longrightarrow> (\<forall>p \<in> set (player_set g). current_options p = []))"


section \<open>A game in which every player sells\<close>

text \<open>
  The states of the example game after its start: \<open>ex_seat k m hand d\<close> is the player of
  user and city \<open>k\<close> with money \<open>m\<close>, the hand \<open>hand\<close> and the pending decision to
  sell option \<open>d\<close>, if any; \<open>ex_state t ds ps\<close> is the started game at turn \<open>t\<close> with
  discards \<open>ds\<close> and players \<open>ps\<close>. \<open>ex_rules_one\<close> is the catalog of the example
  with a single turn in an age.
\<close>

definition ex_seat :: "nat \<Rightarrow> int \<Rightarrow> nat list \<Rightarrow> nat option \<Rightarrow> player" where
  "ex_seat k m hand d = (ex_player k)\<lparr>money := m, current_options := map ex_option hand,
     option_picked := map_option ex_option d,
     action := (case d of None \<Rightarrow> [] | Some _ \<Rightarrow> SELL_ACTION)\<rparr>"

definition ex_state :: "nat \<Rightarrow> build_option list \<Rightarrow> player list \<Rightarrow> game" where
  "ex_state t ds ps = \<lparr>allowed_variants = [0], age = ex_age, turn = t, discards = ds,
     started = True, finished = False, special_use_discards_turn = False,
     player_set = ps, battleresult_set = []\<rparr>"

definition ex_rules_one :: rules where
  "ex_rules_one = ex_rules\<lparr>TURN_COUNT := 1\<rparr>"

text \<open>
  In the game with a single turn, the first two players have decided to sell the first
  option of their hands; then the third player does so, and the game is over.
\<close>

definition ex_game_last :: game where
  "ex_game_last = ex_state 1 [] [ex_seat 11 3 ex_hand1 (Some 101), ex_seat 12 3 ex_hand2 (Some 108),
                                 ex_seat 13 3 ex_hand3 None]"

definition ex_game_over :: game where
  "ex_game_over =
     outcome_state (play ex_rules_one ex_rnd ex_game_last 2 SELL_ACTION (ex_option 115) 0 0)"


section \<open>The active effects of a player\<close>

lemma outer_Some_count:
  "distinct js \<Longrightarrow>
   concat (map (\<lambda>pb. if pb = Some i then [e] else []) (outer (filter P js)))
     = (if i \<in> set js \<and> P i then [e] else [])"
proof -
  assume d: "distinct js"
  have "concat (map (\<lambda>pb. if pb = Some i then [e] else []) (map Some (filter P js)))
     = (if i \<in> set js \<and> P i then [e] else [])"
    using d by (induction js) auto
  then show ?thesis by (auto simp: outer_def filter_empty_conv)
qed

lemma player_buildings_count:
  "i < length (player_set g) \<Longrightarrow>
   concat (map (\<lambda>pb. if pb = Some i then [e] else []) (outer (player_buildings g b)))
      = (if b \<in> set (buildings (player_set g ! i)) then [e] else [])"
  unfolding player_buildings_def by (subst outer_Some_count) auto

lemma active_effects_no_specials:
  assumes "CitySpecial_objects R = []" and "i < length (player_set g)"
  shows "active_effects R g i =
     [e. e \<leftarrow> Effect_objects R, b \<leftarrow> Building_objects R, building_effect b = e,
         b \<in> set (buildings (player_set g ! i))]"
proof -
  note pb = player_buildings_count[OF assms(2)]
  have inner: "concat (map (\<lambda>b. concat (map (\<lambda>pb. if pb = Some i then [e] else [])
                  (case b of None \<Rightarrow> [None] | Some b \<Rightarrow> outer (player_buildings g b)))) (outer bs))
      = concat (map (\<lambda>b. if b \<in> set (buildings (player_set g ! i)) then [e] else []) bs)" for e bs
  proof (cases "bs = []")
    case True
    then show ?thesis by (simp add: outer_def)
  next
    case False
    then have "outer bs = map Some bs" by (simp add: outer_def)
    then show ?thesis by (simp add: pb comp_def)
  qed
  have f: "concat (map (\<lambda>b. if b \<in> set (buildings (player_set g ! i)) then [e] else [])
              (filter (\<lambda>b. building_effect b = e) bs))
      = concat (map (\<lambda>b. if building_effect b = e then if b \<in> set (buildings (player_set g ! i)) then [e] else [] else []) bs)" for e bs
    by (induction bs) auto
  have "active_effects R g i =
     concat (map (\<lambda>e. concat (map (\<lambda>b. concat (map (\<lambda>pb. if pb = Some i then [e] else [])
                  (case b of None \<Rightarrow> [None] | Some b \<Rightarrow> outer (player_buildings g b))))
               (outer (filter (\<lambda>b. building_effect b = e) (Building_objects R)))))
        (Effect_objects R))"
    unfolding active_effects_def assms(1) by (simp add: outer_def)
  then show ?thesis by (simp only: inner f)
qed

lemma set_outer: "set (outer xs) = (if xs = [] then {None} else Some ` set xs)"
  by (simp add: outer_def)

lemma outer_member: "\<exists>x. x \<in> set (outer xs)"
  by (cases xs) (auto simp: outer_def)

lemma bex_outer:
  "(\<exists>x \<in> set (outer xs). Q x) \<longleftrightarrow> (if xs = [] then Q None else (\<exists>x \<in> set xs. Q (Some x)))"
  by (auto simp: outer_def)

lemma Some_in_player_buildings:
  "i < length (player_set g) \<Longrightarrow>
   Some i \<in> set (outer (player_buildings g b)) \<longleftrightarrow> b \<in> set (buildings (player_set g ! i))"
  by (auto simp: set_outer player_buildings_def filter_empty_conv)

lemma in_active_effects:
  assumes "i < length (player_set g)"
  shows "e \<in> set (active_effects R g i) \<longleftrightarrow>
     e \<in> set (Effect_objects R)
     \<and> ((\<exists>s \<in> set (CitySpecial_objects R). special_effect s = e \<and> built_special (player_set g ! i) s)
        \<or> (\<exists>b \<in> set (Building_objects R). building_effect b = e \<and> b \<in> set (buildings (player_set g ! i))))"
    (is "?L \<longleftrightarrow> ?E \<and> (?S \<or> ?B)")
proof -
  let ?css = "outer (filter (\<lambda>s. special_effect s = e) (CitySpecial_objects R))"
  let ?bs = "outer (filter (\<lambda>b. building_effect b = e) (Building_objects R))"
  let ?pbs = "\<lambda>b. case b of None \<Rightarrow> [None] | Some b \<Rightarrow> outer (player_buildings g b)"
  let ?c = "\<lambda>cs. case cs of None \<Rightarrow> False | Some s \<Rightarrow> built_special (player_set g ! i) s"
  have L: "?L \<longleftrightarrow> ?E \<and> (\<exists>cs \<in> set ?css. \<exists>b \<in> set ?bs. \<exists>pb \<in> set (?pbs b). ?c cs \<or> pb = Some i)"
    unfolding active_effects_def by auto
  have ne_b: "\<exists>b. b \<in> set ?bs" by (rule outer_member)
  have ne_cs: "\<exists>cs. cs \<in> set ?css" by (rule outer_member)
  have ne_pb: "\<exists>pb. pb \<in> set (?pbs b)" for b by (cases b) (simp_all add: outer_member)
  have S: "(\<exists>cs \<in> set ?css. ?c cs) \<longleftrightarrow> ?S"
    by (auto simp: bex_outer filter_empty_conv)
  have B: "(\<exists>b \<in> set ?bs. Some i \<in> set (?pbs b)) \<longleftrightarrow> ?B"
    by (auto simp: bex_outer filter_empty_conv Some_in_player_buildings[OF assms])
  have "(\<exists>cs \<in> set ?css. \<exists>b \<in> set ?bs. \<exists>pb \<in> set (?pbs b). ?c cs \<or> pb = Some i)
      \<longleftrightarrow> (\<exists>cs \<in> set ?css. ?c cs) \<or> (\<exists>b \<in> set ?bs. Some i \<in> set (?pbs b))"
    using ne_b ne_cs ne_pb by blast
  then show ?thesis unfolding L S B by simp
qed

text \<open>The active effects of a player depend on the buildings of all players and on the city,
  the variant and the built specials of the player.\<close>

lemma active_effects_cong:
  assumes "map buildings (player_set h) = map buildings (player_set g)"
    and "city (player_set h ! i) = city (player_set g ! i)"
    and "variant (player_set h ! i) = variant (player_set g ! i)"
    and "specials_built (player_set h ! i) = specials_built (player_set g ! i)"
  shows "active_effects R h i = active_effects R g i"
proof -
  have len: "length (player_set h) = length (player_set g)"
    using arg_cong[OF assms(1), of length] by simp
  have b: "buildings (player_set h ! j) = buildings (player_set g ! j)" if "j < length (player_set g)" for j
    using arg_cong[OF assms(1), of "\<lambda>xs. xs ! j"] that len by simp
  have pb: "player_buildings h = player_buildings g"
    unfolding player_buildings_def len by (intro ext filter_cong) (simp_all add: b)
  have bs: "built_special (player_set h ! i) = built_special (player_set g ! i)"
    by (intro ext) (simp add: built_special_def assms)
  show ?thesis by (simp add: active_effects_def pb bs cong: option.case_cong)
qed



section \<open>Science score\<close>

subsection \<open>The tuple class of a well-named science table\<close>








subsection \<open>The reachable count vectors\<close>


lemma length_spec_counts [simp]: "length (spec_counts names a) = length names"
  by (simp add: spec_counts_def)

lemma length_unit_counts [simp]: "length (unit_counts names s) = length names"
  by (simp add: unit_counts_def)

lemma length_add_counts [simp]: "length (add_counts b c) = min (length b) (length c)"
  by (simp add: add_counts_def)













text \<open>A science table with a name of two words: no player has a science score.\<close>

lemma science_score_words: "science_score ex_rules_words g i = Inl TypeError"
proof -
  have "namedtuple (str_join '' '' [''Test Science'']) = Inr [''Test'', ''Science'']"
    by (simp add: namedtuple_def field_name_def isspace_def isalnum_def isalpha_def isdigit_def
        kwlist_def)
  then show ?thesis
    by (simp add: science_score_def ex_rules_words_def Let_def)
qed




section \<open>Dealing\<close>

lemma mset_shuffled: "mset (shuffled seed xs) = mset xs"
proof (induction seed xs rule: shuffled.induct)
  case (3 r seed x xs)
  let ?ys = "shuffled seed xs"
  let ?k = "r mod Suc (length ?ys)"
  have "mset (take ?k ?ys) + mset (drop ?k ?ys) = mset ?ys"
    by (metis append_take_drop_id mset_append)
  then show ?case using 3 by (simp add: Let_def)
qed simp_all

lemma length_shuffled: "length (shuffled seed xs) = length xs"
  using mset_shuffled[of seed xs] by (metis size_mset)

lemma set_shuffled: "set (shuffled seed xs) = set xs"
  using mset_shuffled[of seed xs] by (metis set_mset_mset)

lemma distinct_shuffled: "distinct (shuffled seed xs) = distinct xs"
  using mset_shuffled[of seed xs] by (metis distinct_count_atmost_1 set_mset_mset)

lemma filter_shuffled: "length (filter P (shuffled seed xs)) = length (filter P xs)"
proof -
  have "mset (filter P (shuffled seed xs)) = mset (filter P xs)"
    by (simp add: mset_shuffled)
  then show ?thesis by (metis size_mset)
qed

lemma concat_chunks:
  "n * k \<le> length xs \<Longrightarrow> concat (map (\<lambda>j. take k (drop (j * k) xs)) [0..<n]) = take (n * k) xs"
proof (induction n)
  case 0
  then show ?case by simp
next
  case (Suc n)
  then have "concat (map (\<lambda>j. take k (drop (j * k) xs)) [0..<n]) = take (n * k) xs"
    by simp
  moreover have "Suc n * k = n * k + k" by simp
  ultimately show ?case
    by (simp only: upt_Suc_append[OF le0] map_append concat_append take_add) simp
qed

lemma player_set_update_player [simp]:
  "player_set (update_player g i f) = (player_set g)[i := f (player_set g ! i)]"
  by (simp add: update_player_def)

lemma deal_done:
  "n = length (player_set g) \<Longrightarrow> k \<le> n \<Longrightarrow>
   \<forall>j. k \<le> j \<and> j < n \<longrightarrow> current_options (player_set g ! j) = [] \<Longrightarrow>
   deal R [k..<n] options g =
     Done (g\<lparr>player_set := take k (player_set g) @
        map (\<lambda>j. (player_set g ! j)\<lparr>current_options :=
                 remdups (take (INITIAL_OPTIONS R) (drop ((j - k) * INITIAL_OPTIONS R) options))\<rparr>)
          [k..<n]\<rparr>)"
proof (induction "n - k" arbitrary: k g options)
  case 0
  then show ?case by simp
next
  case (Suc d)
  then have kn: "k < n" by simp
  let ?IO = "INITIAL_OPTIONS R"
  let ?g1 = "update_player g k (\<lambda>p. p\<lparr>current_options := m2m_add (current_options p) (take ?IO options)\<rparr>)"
  have upt: "[k..<n] = k # [Suc k..<n]" using kn by (simp add: upt_rec)
  have empty: "current_options (player_set g ! k) = []" using Suc.prems kn by simp
  have step: "deal R [k..<n] options g = deal R [Suc k..<n] (drop ?IO options) ?g1"
    by (simp add: upt empty)
  have IH: "deal R [Suc k..<n] (drop ?IO options) ?g1 =
     Done (?g1\<lparr>player_set := take (Suc k) (player_set ?g1) @
        map (\<lambda>j. (player_set ?g1 ! j)\<lparr>current_options :=
                 remdups (take ?IO (drop ((j - Suc k) * ?IO) (drop ?IO options)))\<rparr>)
          [Suc k..<n]\<rparr>)"
    using Suc.prems Suc.hyps(2) kn by (intro Suc.hyps(1)) auto
  have a: "take (Suc k) (player_set ?g1) =
      take k (player_set g) @ [(player_set g ! k)\<lparr>current_options := remdups (take ?IO options)\<rparr>]"
    using kn Suc.prems(1) by (simp add: take_Suc_conv_app_nth empty m2m_add_def)
  have b: "map (\<lambda>j. (player_set ?g1 ! j)\<lparr>current_options :=
                 remdups (take ?IO (drop ((j - Suc k) * ?IO) (drop ?IO options)))\<rparr>) [Suc k..<n]
         = map (\<lambda>j. (player_set g ! j)\<lparr>current_options :=
                 remdups (take ?IO (drop ((j - k) * ?IO) options))\<rparr>) [Suc k..<n]"
  proof (rule map_cong[OF refl])
    fix j assume "j \<in> set [Suc k..<n]"
    then have j: "Suc k \<le> j" "j < n" by auto
    then have "j - k = Suc (j - Suc k)" by simp
    then have "(j - Suc k) * ?IO + ?IO = (j - k) * ?IO"
      by simp
    then show "(player_set ?g1 ! j)\<lparr>current_options :=
                 remdups (take ?IO (drop ((j - Suc k) * ?IO) (drop ?IO options)))\<rparr>
       = (player_set g ! j)\<lparr>current_options := remdups (take ?IO (drop ((j - k) * ?IO) options))\<rparr>"
      using j by (simp add: add.commute)
  qed
  have "deal R [k..<n] options g =
     Done (?g1\<lparr>player_set := (take k (player_set g) @
          [(player_set g ! k)\<lparr>current_options := remdups (take ?IO options)\<rparr>]) @
        map (\<lambda>j. (player_set g ! j)\<lparr>current_options :=
                 remdups (take ?IO (drop ((j - k) * ?IO) options))\<rparr>) [Suc k..<n]\<rparr>)"
    by (simp only: step IH a b)
  then show ?case
    by (simp add: upt update_player_def)
qed

lemma deal_raised:
  "n = length (player_set g) \<Longrightarrow> k \<le> n \<Longrightarrow>
   \<exists>j. k \<le> j \<and> j < n \<and> current_options (player_set g ! j) \<noteq> [] \<Longrightarrow>
   \<exists>g'. deal R [k..<n] options g = Raised AssertionError g'"
proof (induction "n - k" arbitrary: k g options)
  case 0
  then show ?case by auto
next
  case (Suc d)
  then have kn: "k < n" by simp
  have upt: "[k..<n] = k # [Suc k..<n]" using kn by (simp add: upt_rec)
  show ?case
  proof (cases "current_options (player_set g ! k) = []")
    case False
    then show ?thesis by (simp add: upt)
  next
    case True
    let ?IO = "INITIAL_OPTIONS R"
    let ?g1 = "update_player g k (\<lambda>p. p\<lparr>current_options := m2m_add (current_options p) (take ?IO options)\<rparr>)"
    from Suc.prems(3) obtain j where j: "k \<le> j" "j < n" "current_options (player_set g ! j) \<noteq> []"
      by blast
    with True have "Suc k \<le> j" by (cases "j = k") auto
    with j have "\<exists>j. Suc k \<le> j \<and> j < n \<and> current_options (player_set ?g1 ! j) \<noteq> []"
      by (intro exI[of _ j]) auto
    then have "\<exists>g'. deal R [Suc k..<n] (drop ?IO options) ?g1 = Raised AssertionError g'"
      using Suc.prems Suc.hyps(2) kn by (intro Suc.hyps(1)) auto
    then show ?thesis by (simp add: upt True)
  qed
qed


lemma actual_personalities_bounds:
  "0 \<le> actual_personalities n r a b \<and> actual_personalities n r a b \<le> int b"
  by (simp add: actual_personalities_def Let_def)

lemma slice_start_actual:
  "slice_start b (actual_personalities n r a b) = nat (actual_personalities n r a b)"
  using actual_personalities_bounds[of n r a b]
  unfolding slice_start_def by (simp add: min_def) linarith

lemma nat_actual_le: "nat (actual_personalities n r a b) \<le> b"
  using actual_personalities_bounds[of n r a b] by linarith

lemma actual_clip:
  "r \<le> a + b \<Longrightarrow>
   actual_personalities n r a b = spec_clip (int n + 2) (int r - int a) (int b)"
  by (auto simp: actual_personalities_def spec_clip_def Let_def)

lemma slice_length:
  assumes "r \<le> a + b" "n + 2 \<le> r"
  shows "min (slice_start a (int r - int (nat (actual_personalities n r a b)))) a
           + nat (actual_personalities n r a b) = r"
proof -
  define act where "act = actual_personalities n r a b"
  have 1: "0 \<le> act" "act \<le> int b"
    using actual_personalities_bounds[of n r a b] by (simp_all add: act_def)
  have 2: "act \<le> int r" "int r - int a \<le> act"
    using assms unfolding act_def actual_personalities_def Let_def by linarith+
  have "slice_start a (int r - int (nat act)) = nat (int r - act)"
    using 1 2 unfolding slice_start_def by (simp add: min_def) linarith
  then show ?thesis
    using 1 2 unfolding act_def[symmetric] by (simp add: min_def) linarith
qed

lemma distinct_eligible:
  "distinct (BuildOption_objects R) \<Longrightarrow>
   distinct (eligible_options R g) \<and> distinct (eligible_personalities R g)
   \<and> set (eligible_options R g) \<inter> set (eligible_personalities R g) = {}"
  by (auto simp: eligible_options_def eligible_personalities_def)

lemma distinct_shuffle_options:
  assumes "distinct (BuildOption_objects R)"
  shows "distinct (shuffle_options R rn g)"
proof -
  note d = distinct_eligible[OF assms, of g]
  have "set (take i (shuffled s (eligible_options R g)))
          \<inter> set (take j (shuffled t (eligible_personalities R g))) = {}" for i j s t
    using d set_take_subset[of i "shuffled s (eligible_options R g)"]
      set_take_subset[of j "shuffled t (eligible_personalities R g)"]
    by (auto simp: set_shuffled)
  then show ?thesis
    using d by (simp add: shuffle_options_def Let_def distinct_shuffled)
qed

lemma personalities_of_shuffle_options:
  "length (filter (\<lambda>opt. kind (building opt) = PERSONALITY R) (shuffle_options R rn g)) =
   nat (actual_personalities (length (player_set g)) (length (player_set g) * INITIAL_OPTIONS R)
          (length (eligible_options R g)) (length (eligible_personalities R g)))"
proof -
  let ?P = "\<lambda>opt. kind (building opt) = PERSONALITY R"
  let ?act = "actual_personalities (length (player_set g)) (length (player_set g) * INITIAL_OPTIONS R)
          (length (eligible_options R g)) (length (eligible_personalities R g))"
  have no: "filter ?P (take i (shuffled s (eligible_options R g))) = []" for i s
    using set_take_subset[of i "shuffled s (eligible_options R g)"]
    by (auto simp: filter_empty_conv set_shuffled eligible_options_def)
  have all: "filter ?P (take j (shuffled t (eligible_personalities R g)))
      = take j (shuffled t (eligible_personalities R g))" for j t
    using set_take_subset[of j "shuffled t (eligible_personalities R g)"]
    by (auto simp: filter_id_conv set_shuffled eligible_personalities_def)
  show ?thesis
    using nat_actual_le[of "length (player_set g)" "length (player_set g) * INITIAL_OPTIONS R"
        "length (eligible_options R g)" "length (eligible_personalities R g)"]
    by (simp add: shuffle_options_def Let_def filter_shuffled length_shuffled no all
          slice_start_actual)
qed

lemma length_shuffle_options:
  assumes "length (player_set g) * INITIAL_OPTIONS R
             \<le> length (eligible_options R g) + length (eligible_personalities R g)"
    and "length (player_set g) + 2 \<le> length (player_set g) * INITIAL_OPTIONS R"
  shows "length (shuffle_options R rn g) = length (player_set g) * INITIAL_OPTIONS R"
  using slice_length[OF assms]
    nat_actual_le[of "length (player_set g)" "length (player_set g) * INITIAL_OPTIONS R"
        "length (eligible_options R g)" "length (eligible_personalities R g)"]
  by (simp add: shuffle_options_def Let_def length_shuffled slice_start_actual min_absorb1)

lemma shuffle_Done_iff:
  "shuffle R rn g = Done g' \<Longrightarrow>
   started g \<and> \<not> finished g
   \<and> length (player_set g) * INITIAL_OPTIONS R
        \<le> length (eligible_options R g) + length (eligible_personalities R g)
   \<and> length (shuffle_options R rn g) = length (player_set g) * INITIAL_OPTIONS R
   \<and> deal R [0..<length (player_set g)] (shuffle_options R rn g) g = Done g'"
  by (auto simp: shuffle_def Let_def split: if_splits)

lemma shuffle_Done_hands:
  assumes "shuffle R rn g = Done g'" and "distinct (BuildOption_objects R)"
  shows "length (shuffle_options R rn g) = length (player_set g) * INITIAL_OPTIONS R
    \<and> distinct (shuffle_options R rn g)
    \<and> concat (map current_options (player_set g')) = shuffle_options R rn g
    \<and> length (player_set g') = length (player_set g)
    \<and> (\<forall>p \<in> set (player_set g'). length (current_options p) = INITIAL_OPTIONS R)
    \<and> int (length (filter (\<lambda>opt. kind (building opt) = PERSONALITY R) (shuffle_options R rn g)))
        = spec_clip (int (length (player_set g)) + 2)
            (int (length (player_set g) * INITIAL_OPTIONS R) - int (length (eligible_options R g)))
            (int (length (eligible_personalities R g)))"
proof -
  let ?n = "length (player_set g)"
  let ?IO = "INITIAL_OPTIONS R"
  let ?xs = "shuffle_options R rn g"
  note s = shuffle_Done_iff[OF assms(1)]
  have len: "length ?xs = ?n * ?IO" using s by simp
  have dist: "distinct ?xs" by (rule distinct_shuffle_options[OF assms(2)])
  have empty: "\<forall>j. 0 \<le> j \<and> j < ?n \<longrightarrow> current_options (player_set g ! j) = []"
  proof (rule ccontr)
    assume "\<not> ?thesis"
    then have "\<exists>j. 0 \<le> j \<and> j < ?n \<and> current_options (player_set g ! j) \<noteq> []" by blast
    from deal_raised[OF refl le0 this, of R ?xs] s show False by auto
  qed
  have g': "g' = g\<lparr>player_set := map (\<lambda>j. (player_set g ! j)\<lparr>current_options :=
                 remdups (take ?IO (drop (j * ?IO) ?xs))\<rparr>) [0..<?n]\<rparr>"
    using deal_done[OF refl le0 empty, of R ?xs] s by simp
  have chunk: "remdups (take ?IO (drop (j * ?IO) ?xs)) = take ?IO (drop (j * ?IO) ?xs)" for j
    using dist by (simp add: distinct_remdups_id)
  have hands: "map current_options (player_set g') = map (\<lambda>j. take ?IO (drop (j * ?IO) ?xs)) [0..<?n]"
    by (simp add: g' chunk comp_def)
  have "concat (map current_options (player_set g')) = ?xs"
    using concat_chunks[of ?n ?IO ?xs] len by (simp add: hands)
  moreover have "length (player_set g') = ?n" by (simp add: g')
  moreover have "\<forall>p \<in> set (player_set g'). length (current_options p) = ?IO"
  proof
    fix p assume "p \<in> set (player_set g')"
    then have "current_options p \<in> set (map current_options (player_set g'))" by simp
    then obtain j where j: "j < ?n" "current_options p = take ?IO (drop (j * ?IO) ?xs)"
      unfolding hands by auto
    then have "Suc j * ?IO \<le> length ?xs" unfolding len by (intro mult_le_mono1) simp
    then show "length (current_options p) = ?IO" using j by simp
  qed
  moreover have "int (length (filter (\<lambda>opt. kind (building opt) = PERSONALITY R) ?xs))
        = spec_clip (int ?n + 2) (int (?n * ?IO) - int (length (eligible_options R g)))
            (int (length (eligible_personalities R g)))"
    using s actual_personalities_bounds[of ?n "?n * ?IO" "length (eligible_options R g)"
        "length (eligible_personalities R g)"]
      actual_clip[of "?n * ?IO" "length (eligible_options R g)"
        "length (eligible_personalities R g)" ?n]
    by (simp only: personalities_of_shuffle_options) simp
  ultimately show ?thesis using len dist by simp
qed

lemma eligible_started [simp]:
  "eligible_options R (g\<lparr>started := b\<rparr>) = eligible_options R g"
  "eligible_personalities R (g\<lparr>started := b\<rparr>) = eligible_personalities R g"
  by (simp_all add: eligible_options_def eligible_personalities_def)

lemma shuffle_options_started [simp]:
  "shuffle_options R rn (g\<lparr>started := b\<rparr>) = shuffle_options R rn g"
  by (simp add: shuffle_options_def)

lemma start_cases:
  assumes "is_startable R g" and "\<not> finished g" and "age g = Age_first R"
    and "discards g = []" and "turn g = 1"
    and "\<forall>p \<in> set (player_set g). current_options p = []"
    and "distinct (BuildOption_objects R)"
  shows "(length (eligible_options R g) + length (eligible_personalities R g)
            < length (player_set g) * INITIAL_OPTIONS R
          \<longrightarrow> start R rn g = Raised DoesNotExist (g\<lparr>started := True\<rparr>))
       \<and> (length (player_set g) * INITIAL_OPTIONS R
            \<le> length (eligible_options R g) + length (eligible_personalities R g)
          \<and> length (player_set g) + 2 \<le> length (player_set g) * INITIAL_OPTIONS R
          \<longrightarrow> (\<exists>g'. start R rn g = Done g' \<and> started g' \<and> \<not> finished g' \<and> turn g' = 1
                 \<and> length (player_set g') = length (player_set g)
                 \<and> (\<forall>p \<in> set (player_set g'). length (current_options p) = INITIAL_OPTIONS R)))"
proof (intro conjI impI)
  assume "length (eligible_options R g) + length (eligible_personalities R g)
            < length (player_set g) * INITIAL_OPTIONS R"
  then show "start R rn g = Raised DoesNotExist (g\<lparr>started := True\<rparr>)"
    using assms by (simp add: start_def shuffle_def Let_def)
next
  let ?g1 = "g\<lparr>started := True\<rparr>"
  let ?n = "length (player_set g)"
  assume a: "?n * INITIAL_OPTIONS R
            \<le> length (eligible_options R g) + length (eligible_personalities R g)
          \<and> ?n + 2 \<le> ?n * INITIAL_OPTIONS R"
  have len: "length (shuffle_options R rn g) = ?n * INITIAL_OPTIONS R"
    using a by (intro length_shuffle_options) simp_all
  have empty: "\<forall>j. 0 \<le> j \<and> j < length (player_set ?g1) \<longrightarrow> current_options (player_set ?g1 ! j) = []"
    using assms(6) by simp
  from deal_done[OF refl le0 empty, of R "shuffle_options R rn g"]
  obtain g' where d: "deal R [0..<?n] (shuffle_options R rn g) ?g1 = Done g'"
    and g': "g' = ?g1\<lparr>player_set := map (\<lambda>j. (player_set g ! j)\<lparr>current_options :=
                 remdups (take (INITIAL_OPTIONS R) (drop (j * INITIAL_OPTIONS R) (shuffle_options R rn g)))\<rparr>) [0..<?n]\<rparr>"
    by simp
  have sh: "shuffle R rn ?g1 = Done g'"
    using a assms(2) len d by (simp add: shuffle_def Let_def)
  have st: "start R rn g = Done g'"
    using assms sh by (simp add: start_def)
  from shuffle_Done_hands[OF sh] assms(7)
  have "\<forall>p \<in> set (player_set g'). length (current_options p) = INITIAL_OPTIONS R"
    by simp
  then show "\<exists>g'. start R rn g = Done g' \<and> started g' \<and> \<not> finished g' \<and> turn g' = 1
                 \<and> length (player_set g') = length (player_set g)
                 \<and> (\<forall>p \<in> set (player_set g'). length (current_options p) = INITIAL_OPTIONS R)"
    using st assms(2,5) by (intro exI[of _ g']) (simp add: g')
qed

lemma spec_personalities:
  "length (eligible_personalities R g) = spec_available_personalities R g"
  "int (length (player_set g) * INITIAL_OPTIONS R) - int (length (eligible_options R g))
     = spec_required_personalities R g"
  by (simp_all add: eligible_personalities_def eligible_options_def spec_eligible_def
      spec_available_personalities_def spec_required_personalities_def conj_ac)

lemma shuffle_options_eligible:
  "set (shuffle_options R rn g) \<subseteq> {opt \<in> set (BuildOption_objects R). spec_eligible R g opt}"
proof -
  have "set (take a (shuffled s (eligible_options R g)))
           \<subseteq> {opt \<in> set (BuildOption_objects R). spec_eligible R g opt}" for a s
    using set_take_subset[of a "shuffled s (eligible_options R g)"]
    by (auto simp: set_shuffled eligible_options_def spec_eligible_def)
  moreover have "set (take b (shuffled t (eligible_personalities R g)))
           \<subseteq> {opt \<in> set (BuildOption_objects R). spec_eligible R g opt}" for b t
    using set_take_subset[of b "shuffled t (eligible_personalities R g)"]
    by (auto simp: set_shuffled eligible_personalities_def spec_eligible_def)
  ultimately show ?thesis
    by (simp add: shuffle_options_def Let_def set_shuffled)
qed

text \<open>
  C6: a deal that succeeds leaves every player with a hand of \<open>INITIAL_OPTIONS\<close> options;
  the hands together are \<open>n \<times> INITIAL_OPTIONS\<close> different eligible options of the
  catalog; the number of personalities among them is \<open>n + 2\<close> clipped into the interval
  from the required to the available personalities: it lies in that interval and is
  \<open>n + 2\<close> whenever \<open>n + 2\<close> lies in it. The rows of the option table are different
  from each other.
\<close>

theorem shuffle_deals_full_hands:
  assumes "shuffle R rn g = Done g'" and "distinct (BuildOption_objects R)"
  shows "length (player_set g') = length (player_set g)
    \<and> (\<forall>p \<in> set (player_set g'). length (current_options p) = INITIAL_OPTIONS R)
    \<and> length (dealt g') = length (player_set g) * INITIAL_OPTIONS R
    \<and> distinct (dealt g')
    \<and> set (dealt g') \<subseteq> {opt \<in> set (BuildOption_objects R). spec_eligible R g opt}
    \<and> int (spec_personalities_used R g')
        = spec_clip (int (length (player_set g)) + 2) (spec_required_personalities R g)
            (int (spec_available_personalities R g))
    \<and> spec_required_personalities R g \<le> int (spec_personalities_used R g')
    \<and> spec_personalities_used R g' \<le> spec_available_personalities R g
    \<and> (spec_required_personalities R g \<le> int (length (player_set g)) + 2
        \<and> length (player_set g) + 2 \<le> spec_available_personalities R g
        \<longrightarrow> spec_personalities_used R g' = length (player_set g) + 2)"
proof -
  note h = shuffle_Done_hands[OF assms]
  note s = shuffle_Done_iff[OF assms(1)]
  have d: "dealt g' = shuffle_options R rn g" using h by (simp add: dealt_def)
  let ?used = "int (spec_personalities_used R g')"
  let ?lo = "spec_required_personalities R g"
  let ?hi = "int (spec_available_personalities R g)"
  have u: "?used = spec_clip (int (length (player_set g)) + 2) ?lo ?hi"
    using h unfolding spec_personalities_used_def d spec_personalities[symmetric] by blast
  have "?lo \<le> ?hi" using s unfolding spec_personalities[symmetric] by linarith
  then have "?lo \<le> ?used" "?used \<le> ?hi"
    "?lo \<le> int (length (player_set g)) + 2 \<and> int (length (player_set g)) + 2 \<le> ?hi
      \<longrightarrow> ?used = int (length (player_set g)) + 2"
    unfolding u spec_clip_def by auto
  then have b: "?lo \<le> ?used"
    "spec_personalities_used R g' \<le> spec_available_personalities R g"
    "?lo \<le> int (length (player_set g)) + 2
        \<and> length (player_set g) + 2 \<le> spec_available_personalities R g
        \<longrightarrow> spec_personalities_used R g' = length (player_set g) + 2"
    by linarith+
  have "length (dealt g') = length (player_set g) * INITIAL_OPTIONS R" "distinct (dealt g')"
    using h by (simp_all add: d)
  moreover have "set (dealt g') \<subseteq> {opt \<in> set (BuildOption_objects R). spec_eligible R g opt}"
    unfolding d by (rule shuffle_options_eligible)
  ultimately show ?thesis using h u b by blast
qed



section \<open>What the phases of an action leave unchanged\<close>

lemma map_update_same:
  "h (f (ps ! i)) = h (ps ! i) \<Longrightarrow> map h (ps[i := f (ps ! i)]) = map h ps"
proof -
  assume a: "h (f (ps ! i)) = h (ps ! i)"
  have "map h (ps[i := f (ps ! i)]) = (map h ps)[i := h (ps ! i)]"
    by (simp add: map_update a)
  also have "\<dots> = map h (ps[i := ps ! i])"
    by (simp only: map_update)
  finally show ?thesis by simp
qed

lemma proj_update_player:
  "(\<And>p. h (f p) = h p) \<Longrightarrow> map h (player_set (update_player g i f)) = map h (player_set g)"
  by (simp add: update_player_def map_update_same)

lemma frame_update_player:
  "seat (f (player_set g ! i)) = seat (player_set g ! i) \<Longrightarrow> frame (update_player g i f) = frame g"
  by (simp add: frame_def update_player_def map_update_same)

lemma frame_update_player':
  "(\<And>p. seat (f p) = seat p) \<Longrightarrow> frame (update_player g i f) = frame g"
  by (simp add: frame_update_player)

lemma frame_discards [simp]: "frame (g\<lparr>discards := ds\<rparr>) = frame g"
  by (simp add: frame_def)

lemma frame_fields:
  assumes "frame g' = frame g"
  shows "turn g' = turn g" "started g' = started g" "finished g' = finished g" "age g' = age g"
    "battleresult_set g' = battleresult_set g" "allowed_variants g' = allowed_variants g"
    "length (player_set g') = length (player_set g)"
    "map user (player_set g') = map user (player_set g)"
    "map city (player_set g') = map city (player_set g)"
    "map variant (player_set g') = map variant (player_set g)"
    "map action (player_set g') = map action (player_set g)"
    "map option_picked (player_set g') = map option_picked (player_set g)"
    "map trade_left (player_set g') = map trade_left (player_set g)"
    "map trade_right (player_set g') = map trade_right (player_set g)"
proof -
  have "turn (frame g') = turn (frame g)" "started (frame g') = started (frame g)"
    "finished (frame g') = finished (frame g)" "age (frame g') = age (frame g)"
    "battleresult_set (frame g') = battleresult_set (frame g)"
    "allowed_variants (frame g') = allowed_variants (frame g)"
    using assms by simp_all
  then show "turn g' = turn g" "started g' = started g" "finished g' = finished g" "age g' = age g"
    "battleresult_set g' = battleresult_set g" "allowed_variants g' = allowed_variants g"
    by (simp_all add: frame_def)
  have ps: "map seat (player_set g') = map seat (player_set g)"
    using arg_cong[OF assms, of player_set] by (simp add: frame_def)
  from arg_cong[OF ps, of length] show "length (player_set g') = length (player_set g)" by simp
  from arg_cong[OF ps, of "map user"] show "map user (player_set g') = map user (player_set g)"
    by (simp add: seat_def comp_def)
  from arg_cong[OF ps, of "map city"] show "map city (player_set g') = map city (player_set g)"
    by (simp add: seat_def comp_def)
  from arg_cong[OF ps, of "map variant"] show "map variant (player_set g') = map variant (player_set g)"
    by (simp add: seat_def comp_def)
  from arg_cong[OF ps, of "map action"] show "map action (player_set g') = map action (player_set g)"
    by (simp add: seat_def comp_def)
  from arg_cong[OF ps, of "map option_picked"]
  show "map option_picked (player_set g') = map option_picked (player_set g)"
    by (simp add: seat_def comp_def)
  from arg_cong[OF ps, of "map trade_left"]
  show "map trade_left (player_set g') = map trade_left (player_set g)"
    by (simp add: seat_def comp_def)
  from arg_cong[OF ps, of "map trade_right"]
  show "map trade_right (player_set g') = map trade_right (player_set g)"
    by (simp add: seat_def comp_def)
qed

lemma for_each_preserves:
  "(\<And>x s. F (outcome_state (f x s)) = F s) \<Longrightarrow> F (outcome_state (for_each f xs s)) = F s"
proof (induction xs arbitrary: s)
  case Nil
  then show ?case by simp
next
  case (Cons x xs)
  show ?case
  proof (cases "f x s")
    case (Done s')
    then have "F s' = F s" using Cons.prems[of x s] by simp
    moreover have "F (outcome_state (for_each f xs s')) = F s'"
      using Cons.prems by (rule Cons.IH)
    ultimately show ?thesis using Done by simp
  next
    case (Raised e s')
    then show ?thesis using Cons.prems[of x s] by simp
  qed
qed

lemma for_each_invariant:
  "(\<And>x s. x \<in> set xs \<Longrightarrow> P s \<Longrightarrow> P (outcome_state (f x s))) \<Longrightarrow> P s \<Longrightarrow>
   P (outcome_state (for_each f xs s))"
proof (induction xs arbitrary: s)
  case Nil
  then show ?case by simp
next
  case (Cons x xs)
  have 1: "P (outcome_state (f x s))" using Cons.prems by simp
  show ?case
  proof (cases "f x s")
    case (Done s')
    then have "P s'" using 1 by simp
    then have "P (outcome_state (for_each f xs s'))"
      using Cons.prems(1) by (intro Cons.IH) simp_all
    then show ?thesis using Done by simp
  next
    case (Raised e s')
    then show ?thesis using 1 by simp
  qed
qed

lemma frame_pre_apply_action: "frame (outcome_state (pre_apply_action R g i)) = frame g"
  by (auto simp: pre_apply_action_def Let_def frame_update_player' seat_def
      split: option.splits sum.splits)

lemma hands_pre_apply_action:
  "map current_options (player_set (outcome_state (pre_apply_action R g i)))
     = map current_options (player_set g)"
  by (auto simp: pre_apply_action_def Let_def proj_update_player
      simp del: player_set_update_player split: option.splits sum.splits)

text \<open>
  Saving the object of a player leaves the frame alone when the object has the columns
  of its row, money and built specials apart.
\<close>

lemma seat_seen_by:
  assumes "seat obj = seat (player_set g ! i)"
  shows "seat (seen_by g i obj) = seat (player_set g ! i)"
proof -
  have "special_free_building_ages_used obj = special_free_building_ages_used (player_set g ! i)"
    using arg_cong[OF assms, of special_free_building_ages_used] by (simp add: seat_def)
  then have "seat (seen_by g i obj) = seat obj"
    by (simp add: seat_def seen_by_def)
  then show ?thesis using assms by simp
qed

lemma frame_save_player:
  "i < length (player_set g) \<Longrightarrow> seat obj = seat (player_set g ! i) \<Longrightarrow>
   frame (save_player g i obj) = frame g"
  by (simp add: frame_def save_player_def map_update seat_seen_by list_update_same_conv)


lemma frame_credit: "frame (credit g j a) = frame g"
  by (cases j) (simp_all add: credit_def frame_update_player' seat_def)

lemma hands_credit:
  "map current_options (player_set (credit g j a)) = map current_options (player_set g)"
  by (cases j) (simp_all add: credit_def proj_update_player del: player_set_update_player)

lemma settle_trade_frame:
  "settle_trade g i self = (g', self') \<Longrightarrow>
   frame g' = frame g \<and> seat self' = seat self
   \<and> map current_options (player_set g') = map current_options (player_set g)"
  by (auto simp: settle_trade_def Let_def frame_credit hands_credit seat_def
      split: if_splits prod.splits)

lemma seat_earn: "seat (earn R e g i self) = seat self"
  by (simp add: earn_def seat_def)

lemma seat_money_specials [simp]:
  "seat (p\<lparr>money := m\<rparr>) = seat p" "seat (p\<lparr>specials_built := k\<rparr>) = seat p"
  by (simp_all add: seat_def)

lemma frame_apply_branch:
  assumes "i < length (player_set g)" and "seat self = seat (player_set g ! i)"
  shows "frame (outcome_state (apply_branch R g i self)) = frame g"
proof -
  obtain g' self' where st: "settle_trade g i self = (g', self')" by (cases "settle_trade g i self")
  note f = settle_trade_frame[OF st]
  have len: "i < length (player_set g')"
    using arg_cong[OF conjunct1[OF f], of "\<lambda>h. length (player_set h)"] assms(1)
    by (simp add: frame_def)
  have s: "seat (player_set g' ! i) = seat (player_set g ! i)"
    using arg_cong[OF conjunct1[OF f], of "\<lambda>h. player_set h ! i"] assms(1) len
    by (simp add: frame_def)
  have b: "frame (save_player g' i obj) = frame g" if "seat obj = seat self" for obj
    using frame_save_player[OF len, of obj] that f s assms(2) by simp
  have sell: "frame (save_player (g\<lparr>discards := ds\<rparr>) i obj) = frame g" if "seat obj = seat self" for obj ds
    using frame_save_player[of i "g\<lparr>discards := ds\<rparr>" obj] that assms by simp
  show ?thesis
    unfolding apply_branch_def st
    using f by (auto simp: b sell seat_earn split: option.splits)
qed


lemma frame_apply_action:
  assumes "i < length (player_set g)" and "seat self = seat (player_set g ! i)"
  shows "frame (outcome_state (apply_action R g i self)) = frame g"
proof (cases "apply_branch R g i self")
  case (Done g')
  then have "frame g' = frame g" using frame_apply_branch[OF assms, of R] by simp
  then show ?thesis using Done
    by (auto simp: apply_action_def frame_update_player' seat_def split: option.splits)
next
  case (Raised e g')
  then have "frame g' = frame g" using frame_apply_branch[OF assms, of R] by simp
  then show ?thesis using Raised by (simp add: apply_action_def)
qed

text \<open>The two loops of \<open>end_of_turn\<close>.\<close>

lemma frame_pre_loop:
  "frame (outcome_state (for_each (\<lambda>i g. pre_apply_action R g i) js g)) = frame g"
  by (rule for_each_preserves) (rule frame_pre_apply_action)

lemma frame_nth:
  "frame h = frame g \<Longrightarrow> i < length (player_set g) \<Longrightarrow>
   i < length (player_set h) \<and> seat (player_set h ! i) = seat (player_set g ! i)"
proof -
  assume a: "frame h = frame g" "i < length (player_set g)"
  have m: "map seat (player_set h) = map seat (player_set g)"
    using arg_cong[OF a(1), of player_set] by (simp add: frame_def)
  from arg_cong[OF m, of length] have l: "length (player_set h) = length (player_set g)" by simp
  from arg_cong[OF m, of "\<lambda>xs. xs ! i"] a(2) l show ?thesis by simp
qed

lemma frame_apply_loop:
  assumes "set js \<subseteq> {..<length (player_set g1)}"
  shows "frame (outcome_state (for_each (\<lambda>(i, self) g. apply_action R g i self)
            (map (\<lambda>i. (i, player_set g1 ! i)) js) g1)) = frame g1"
proof (rule for_each_invariant[where P = "\<lambda>g. frame g = frame g1"])
  fix x s
  assume x: "x \<in> set (map (\<lambda>i. (i, player_set g1 ! i)) js)" and s: "frame s = frame g1"
  then obtain i where i: "x = (i, player_set g1 ! i)" "i < length (player_set g1)"
    using assms by auto
  from frame_nth[OF s i(2)]
  have "frame (outcome_state (apply_action R s i (player_set g1 ! i))) = frame s"
    by (intro frame_apply_action) simp_all
  then show "frame (outcome_state ((\<lambda>(i, self) g. apply_action R g i self) x s)) = frame g1"
    using i s by simp
qed simp

lemma zip_upt_nth: "zip [0..<length ps] ps = map (\<lambda>i. (i, ps ! i)) [0..<length ps]"
  by (rule nth_equalityI) simp_all



section \<open>The example games\<close>

lemma ex_option_inj: "ex_option j = ex_option k \<longleftrightarrow> j = k"
  by (auto simp: ex_option_def)

lemma ex_option_fields:
  "option_age (ex_option k) = ex_age" "players_needed (ex_option k) = 3"
  "kind (building (ex_option k)) = ''civ''"
  by (simp_all add: ex_option_def ex_building_def)

lemma shuffled_Nil: "shuffled [] xs = xs"
  by (induction xs) auto

lemma ex_rules_fields:
  "MINIMUM_PLAYERS ex_rules = 3" "INITIAL_OPTIONS ex_rules = 7" "TURN_COUNT ex_rules = 6"
  "PERSONALITY ex_rules = ''per''"
  "BuildOption_objects ex_rules = map ex_option (ex_hand1 @ ex_hand2 @ ex_hand3)"
  "Age_first ex_rules = ex_age" "Age_next ex_rules = (\<lambda>a. None)" "SELL_VALUE ex_rules = 3"
  "CitySpecial_objects ex_rules = []" "City_objects ex_rules = map ex_city [11, 12, 13]"
  "INITIAL_MONEY ex_rules = 3" "Science_objects ex_rules = [''A'', ''B'', ''C'']"
  "Building_objects ex_rules = ex_buildings"
  "Effect_objects ex_rules = map building_effect ex_buildings"
  by (simp_all add: ex_rules_def)

lemma ex_game0_fields:
  "age ex_game0 = ex_age" "length (player_set ex_game0) = 3" "\<not> started ex_game0"
  "\<not> finished ex_game0" "turn ex_game0 = 1" "discards ex_game0 = []"
  "player_set ex_game0 = [ex_player 11, ex_player 12, ex_player 13]"
  by (simp_all add: ex_game0_def Game_new_def ex_rules_fields)

lemma ex_eligible:
  "age g = ex_age \<Longrightarrow> length (player_set g) = 3 \<Longrightarrow>
   eligible_options ex_rules g = map ex_option (ex_hand1 @ ex_hand2 @ ex_hand3)
   \<and> eligible_personalities ex_rules g = []"
  by (simp add: eligible_options_def eligible_personalities_def ex_rules_fields filter_map comp_def
      ex_option_fields)

lemma ex_hands_length: "length ex_hand1 = 7" "length ex_hand2 = 7" "length ex_hand3 = 7"
  by (simp_all add: ex_hand1_def ex_hand2_def ex_hand3_def)

lemma shuffle_options_plain:
  assumes "eligible_personalities R g = []"
    and "length (eligible_options R g) = length (player_set g) * INITIAL_OPTIONS R"
    and "rnd_options rn = []" and "rnd_shuffle rn = []"
  shows "shuffle_options R rn g = eligible_options R g"
proof -
  have a: "actual_personalities n r a 0 = 0" for n r a
    by (simp add: actual_personalities_def Let_def)
  have s: "slice_start n (int n) = n" "slice_start 0 0 = 0" for n
    by (simp_all add: slice_start_def)
  show ?thesis
    unfolding shuffle_options_def Let_def assms(1,3,4) shuffled_Nil
    by (simp add: a s assms(2)[symmetric])
qed

lemma ex_shuffle_options:
  "age g = ex_age \<Longrightarrow> length (player_set g) = 3 \<Longrightarrow>
   shuffle_options ex_rules ex_rnd g = map ex_option (ex_hand1 @ ex_hand2 @ ex_hand3)"
  using shuffle_options_plain[of ex_rules g ex_rnd]
  by (simp add: ex_eligible ex_rules_fields ex_rnd_def ex_hands_length)

lemma ex_hands_distinct: "distinct (ex_hand1 @ ex_hand2 @ ex_hand3)"
  by (simp add: ex_hand1_def ex_hand2_def ex_hand3_def)

lemma ex_distinct: "distinct (BuildOption_objects ex_rules)"
  unfolding ex_rules_fields distinct_map
  using ex_hands_distinct by (simp add: inj_on_def ex_option_inj)

lemma ex_chunks:
  "remdups (take 7 (drop (0 * 7) (map ex_option (ex_hand1 @ ex_hand2 @ ex_hand3)))) = map ex_option ex_hand1"
  "remdups (take 7 (drop (1 * 7) (map ex_option (ex_hand1 @ ex_hand2 @ ex_hand3)))) = map ex_option ex_hand2"
  "remdups (take 7 (drop (2 * 7) (map ex_option (ex_hand1 @ ex_hand2 @ ex_hand3)))) = map ex_option ex_hand3"
proof -
  have d: "distinct (map ex_option (ex_hand1 @ ex_hand2 @ ex_hand3))"
    using ex_distinct by (simp add: ex_rules_fields)
  have r: "remdups (take 7 (drop k (map ex_option (ex_hand1 @ ex_hand2 @ ex_hand3))))
     = take 7 (drop k (map ex_option (ex_hand1 @ ex_hand2 @ ex_hand3)))" for k
    by (intro distinct_remdups_id distinct_take distinct_drop d)
  show "remdups (take 7 (drop (0 * 7) (map ex_option (ex_hand1 @ ex_hand2 @ ex_hand3)))) = map ex_option ex_hand1"
    "remdups (take 7 (drop (1 * 7) (map ex_option (ex_hand1 @ ex_hand2 @ ex_hand3)))) = map ex_option ex_hand2"
    "remdups (take 7 (drop (2 * 7) (map ex_option (ex_hand1 @ ex_hand2 @ ex_hand3)))) = map ex_option ex_hand3"
    unfolding r by (simp_all add: ex_hands_length)
qed

lemma ex_shuffle: "shuffle ex_rules ex_rnd (ex_game0\<lparr>started := True\<rparr>) = Done ex_game1"
proof -
  let ?g = "ex_game0\<lparr>started := True\<rparr>"
  let ?xs = "map ex_option (ex_hand1 @ ex_hand2 @ ex_hand3)"
  have len: "length (player_set ?g) = 3" by (simp add: ex_game0_fields)
  have e: "\<forall>j. 0 \<le> j \<and> j < length (player_set ?g) \<longrightarrow> current_options (player_set ?g ! j) = []"
    by (simp add: ex_game0_fields ex_player_def less_Suc_eq numeral_3_eq_3)
  have u: "[0..<3] = [0, 1, 2::nat]" by (simp add: upt_rec)
  have "deal ex_rules [0..<length (player_set ?g)] ?xs ?g =
     Done (?g\<lparr>player_set := take 0 (player_set ?g) @
        map (\<lambda>j. (player_set ?g ! j)\<lparr>current_options :=
                 remdups (take (INITIAL_OPTIONS ex_rules)
                   (drop ((j - 0) * INITIAL_OPTIONS ex_rules) ?xs))\<rparr>)
          [0..<length (player_set ?g)]\<rparr>)"
    by (rule deal_done[OF refl le0 e])
  moreover have "?g\<lparr>player_set := take 0 (player_set ?g) @
        map (\<lambda>j. (player_set ?g ! j)\<lparr>current_options :=
                 remdups (take (INITIAL_OPTIONS ex_rules)
                   (drop ((j - 0) * INITIAL_OPTIONS ex_rules) ?xs))\<rparr>)
          [0..<length (player_set ?g)]\<rparr> = ex_game1"
    using ex_chunks
    by (simp add: len u ex_game0_fields ex_rules_fields ex_game1_def ex_dealt_def del: map_append)
  ultimately have "deal ex_rules [0..<length (player_set ?g)] ?xs ?g = Done ex_game1"
    by (simp only:)
  then show ?thesis
    by (simp add: shuffle_def Let_def ex_game0_fields ex_eligible ex_shuffle_options ex_rules_fields
        ex_hands_length del: upt_Suc deal.simps map_append)
qed

lemma ex_start: "start ex_rules ex_rnd ex_game0 = Done ex_game1"
  by (simp add: start_def is_startable_def ex_game0_fields ex_rules_fields ex_shuffle)

lemma ex_game1_fields:
  "started ex_game1" "\<not> finished ex_game1" "turn ex_game1 = 1" "age ex_game1 = ex_age"
  "player_set ex_game1 = [ex_dealt 11 ex_hand1, ex_dealt 12 ex_hand2, ex_dealt 13 ex_hand3]"
  "discards ex_game1 = []" "length (player_set ex_game1) = 3"
  by (simp_all add: ex_game1_def ex_game0_fields)

lemma ex_dealt_fields:
  "action (ex_dealt k h) = []" "buildings (ex_dealt k h) = []" "specials_built (ex_dealt k h) = 0"
  "current_options (ex_dealt k h) = map ex_option h"
  "option_picked (ex_dealt k h) = None" "money (ex_dealt k h) = 3" "user (ex_dealt k h) = k"
  "city (ex_dealt k h) = ex_city k" "variant (ex_dealt k h) = 0"
  "trade_left (ex_dealt k h) = 0" "trade_right (ex_dealt k h) = 0"
  by (simp_all add: ex_dealt_def ex_player_def)


subsection \<open>The effects of the example catalog\<close>

text \<open>
  In a catalog without city specials in which every building has an effect row of its own,
  the active effects of a player are the effects of the buildings of the player.
\<close>

lemma filter_eq_singleton:
  "distinct xs \<Longrightarrow> inj_on f (set xs) \<Longrightarrow> x \<in> set xs \<Longrightarrow> filter (\<lambda>y. f y = f x) xs = [x]"
proof (induction xs)
  case Nil
  then show ?case by simp
next
  case (Cons a xs)
  show ?case
  proof (cases "a = x")
    case True
    have "filter (\<lambda>y. f y = f x) xs = []"
      using Cons.prems True by (auto simp: filter_empty_conv inj_on_def)
    then show ?thesis using True by simp
  next
    case False
    then have "f a \<noteq> f x" using Cons.prems by (auto simp: inj_on_def)
    moreover have "filter (\<lambda>y. f y = f x) xs = [x]"
      using Cons False by (intro Cons.IH) auto
    ultimately show ?thesis by simp
  qed
qed

lemma concat_map_if:
  "concat (map (\<lambda>b. if P b then F b else []) xs) = concat (map F (filter P xs))"
  by (induction xs) auto

lemma concat_map_if_single:
  "concat (map (\<lambda>b. if P b then [f b] else []) xs) = map f (filter P xs)"
  by (induction xs) auto

lemma active_effects_own:
  assumes "CitySpecial_objects R = []" and "i < length (player_set g)"
    and "Effect_objects R = map building_effect (Building_objects R)"
    and "distinct (map building_effect (Building_objects R))"
  shows "active_effects R g i =
     map building_effect
       (filter (\<lambda>b. b \<in> set (buildings (player_set g ! i))) (Building_objects R))"
proof -
  let ?Bs = "Building_objects R"
  let ?own = "\<lambda>b. b \<in> set (buildings (player_set g ! i))"
  have d: "distinct ?Bs" "inj_on building_effect (set ?Bs)"
    using assms(4) by (simp_all add: distinct_map)
  have one: "concat (map (\<lambda>b. if building_effect b = building_effect b' then if ?own b then [building_effect b'] else [] else []) ?Bs)
      = (if ?own b' then [building_effect b'] else [])" if "b' \<in> set ?Bs" for b'
  proof -
    have "concat (map (\<lambda>b. if building_effect b = building_effect b' then if ?own b then [building_effect b'] else [] else []) ?Bs)
        = concat (map (\<lambda>b. if ?own b then [building_effect b'] else [])
            (filter (\<lambda>b. building_effect b = building_effect b') ?Bs))"
      by (rule concat_map_if)
    then show ?thesis
      by (simp only: filter_eq_singleton[OF d that]) simp
  qed
  have "active_effects R g i =
      concat (map (\<lambda>b'. concat (map (\<lambda>b. if building_effect b = building_effect b' then if ?own b then [building_effect b'] else [] else []) ?Bs)) ?Bs)"
    unfolding active_effects_no_specials[OF assms(1,2)] assms(3)
    by (simp add: comp_def)
  also have "\<dots> = concat (map (\<lambda>b'. if ?own b' then [building_effect b'] else []) ?Bs)"
    using one by (intro arg_cong[where f = concat] map_cong) simp_all
  also have "\<dots> = map building_effect (filter ?own ?Bs)"
    by (rule concat_map_if_single)
  finally show ?thesis .
qed

lemma ex_building_fields:
  "building_id (ex_building k f e) = k" "effect_id (building_effect (ex_building k f e)) = k"
  "kind (ex_building k f e) = ''civ''" "free_having (ex_building k f e) = f"
  "building_effect (ex_building k f e) = e\<lparr>effect_id := k\<rparr>"
  by (simp_all add: ex_building_def)

lemma ex_building_eq:
  "ex_building k f e = ex_building k' f' e' \<longleftrightarrow> k = k' \<and> f = f' \<and> e\<lparr>effect_id := k\<rparr> = e'\<lparr>effect_id := k'\<rparr>"
  by (auto simp: ex_building_def)

lemma ex_effects_distinct: "distinct (map building_effect ex_buildings)"
proof -
  have "map (effect_id \<circ> building_effect) ex_buildings
      = ex_hand1 @ ex_hand2 @ ex_hand3 @ [201, 202, 203, 204, 205, 206, 207]"
    by (simp add: ex_buildings_def ex_building_fields comp_def)
  moreover have "distinct (ex_hand1 @ ex_hand2 @ ex_hand3 @ [201, 202, 203, 204, 205, 206, 207 :: nat])"
    by (simp add: ex_hand1_def ex_hand2_def ex_hand3_def)
  ultimately have "distinct (map effect_id (map building_effect ex_buildings))"
    by simp
  then show ?thesis
    using distinct_map[of effect_id "map building_effect ex_buildings"] by blast
qed

lemma ex_active_effects:
  "i < length (player_set g) \<Longrightarrow>
   active_effects ex_rules g i =
     map building_effect (filter (\<lambda>b. b \<in> set (buildings (player_set g ! i))) ex_buildings)"
  using active_effects_own[of ex_rules i g] ex_effects_distinct
  by (simp add: ex_rules_fields)

lemma ex_active_effects_none:
  "i < length (player_set g) \<Longrightarrow> buildings (player_set g ! i) = [] \<Longrightarrow>
   active_effects ex_rules g i = []"
  by (simp add: ex_active_effects)

lemma ex_active_effects_one:
  assumes "i < length (player_set g)" and "buildings (player_set g ! i) = [b]"
    and "b \<in> set ex_buildings"
  shows "active_effects ex_rules g i = [building_effect b]"
proof -
  have d: "distinct ex_buildings" using ex_effects_distinct by (simp add: distinct_map)
  have "filter (\<lambda>x. x = b) ex_buildings = [b]"
    using filter_eq_singleton[OF d inj_on_id2 assms(3)] by simp
  then show ?thesis by (simp add: ex_active_effects[OF assms(1)] assms(2))
qed

lemma in_ex_buildings:
  "ex_building 201 201 Effect_new \<in> set ex_buildings"
  "ex_building 203 203 (Effect_new\<lparr>free_building := True\<rparr>) \<in> set ex_buildings"
  "ex_building 206 206 (Effect_new\<lparr>effect_military := 2\<rparr>) \<in> set ex_buildings"
  "ex_building 207 207 Effect_new \<in> set ex_buildings"
  by (simp_all add: ex_buildings_def)




section \<open>Playing and applying an action\<close>

lemma for_each_raises:
  assumes "j \<in> set js" and "P s"
    and "\<And>s'. P s' \<Longrightarrow> \<exists>e s''. f j s' = Raised e s''"
    and "\<And>x s'. x \<in> set js \<Longrightarrow> P s' \<Longrightarrow> P (outcome_state (f x s'))"
  shows "\<exists>e s''. for_each f js s = Raised e s'' \<and> P s''"
  using assms(1,2,4)
proof (induction js arbitrary: s)
  case Nil
  then show ?case by simp
next
  case (Cons x xs)
  have Px: "P (outcome_state (f x s))" using Cons.prems by simp
  show ?case
  proof (cases "f x s")
    case (Raised e s')
    then show ?thesis using Px by simp
  next
    case (Done s')
    have Ps': "P s'" using Px Done by simp
    have "x \<noteq> j" using assms(3)[OF Cons.prems(2)] Done by auto
    then have j: "j \<in> set xs" using Cons.prems(1) by simp
    have "\<exists>e s''. for_each f xs s' = Raised e s'' \<and> P s''"
      using Cons.prems(3) by (intro Cons.IH[OF j Ps']) simp_all
    then show ?thesis using Done by simp
  qed
qed

lemma apply_action_free:
  "action self = FREE_ACTION \<Longrightarrow>
   apply_action R h i self = Raised NameError h \<or> apply_action R h i self = Raised AssertionError h"
  by (auto simp: apply_action_def apply_branch_def Let_def FREE_ACTION_def SELL_ACTION_def
      BUILD_ACTION_def can_build_free_def assert_def split: option.splits)

lemma frame_action:
  assumes "frame g' = frame g" and "i < length (player_set g)"
  shows "action (player_set g' ! i) = action (player_set g ! i)"
    and "special_free_building_ages_used (player_set g' ! i)
           = special_free_building_ages_used (player_set g ! i)"
proof -
  have s: "seat (player_set g' ! i) = seat (player_set g ! i)"
    using frame_nth[OF assms] by simp
  show "action (player_set g' ! i) = action (player_set g ! i)"
    using arg_cong[OF s, of action] by (simp add: seat_def)
  show "special_free_building_ages_used (player_set g' ! i)
           = special_free_building_ages_used (player_set g ! i)"
    using arg_cong[OF s, of special_free_building_ages_used] by (simp add: seat_def)
qed

lemma end_of_turn_free:
  assumes "i < length (player_set g)" and "action (player_set g ! i) = FREE_ACTION"
  shows "\<exists>e g'. end_of_turn R rn g = Raised e g' \<and> frame g' = frame g"
proof (cases "for_each (\<lambda>i g. pre_apply_action R g i) [0..<length (player_set g)] g")
  case (Raised e g1)
  have "frame g1 = frame g"
    using frame_pre_loop[of R "[0..<length (player_set g)]" g] Raised by simp
  then show ?thesis using Raised by (simp add: end_of_turn_def Let_def)
next
  case (Done g1)
  have f1: "frame g1 = frame g"
    using frame_pre_loop[of R "[0..<length (player_set g)]" g] Done by simp
  have len: "length (player_set g1) = length (player_set g)"
    using frame_fields(7)[OF f1] .
  have act: "action (player_set g1 ! i) = FREE_ACTION"
    using frame_action(1)[OF f1 assms(1)] assms(2) by simp
  let ?js = "map (\<lambda>i. (i, player_set g1 ! i)) [0..<length (player_set g1)]"
  have "\<exists>e s''. for_each (\<lambda>(i, self) g. apply_action R g i self) ?js g1 = Raised e s''
          \<and> frame s'' = frame g1"
  proof (rule for_each_raises[where j = "(i, player_set g1 ! i)"])
    show "(i, player_set g1 ! i) \<in> set ?js" using assms(1) len by simp
  next
    show "frame g1 = frame g1" by simp
  next
    fix s' assume "frame s' = frame g1"
    show "\<exists>e s''. (\<lambda>(i, self) g. apply_action R g i self) (i, player_set g1 ! i) s' = Raised e s''"
      using apply_action_free[OF act, of R s' i] by auto
  next
    fix x s' assume x: "x \<in> set ?js" and s': "frame s' = frame g1"
    then obtain k where k: "x = (k, player_set g1 ! k)" "k < length (player_set g1)" by auto
    from frame_nth[OF s' k(2)]
    have "frame (outcome_state (apply_action R s' k (player_set g1 ! k))) = frame s'"
      by (intro frame_apply_action) simp_all
    then show "frame (outcome_state ((\<lambda>(i, self) g. apply_action R g i self) x s')) = frame g1"
      using k s' by simp
  qed
  moreover have "zip [0..<length (player_set g)] (player_set g1) = ?js"
    using zip_upt_nth[of "player_set g1"] len by simp
  ultimately show ?thesis
    using Done f1 by (auto simp: end_of_turn_def Let_def)
qed

lemma pre_apply_free:
  assumes "action (player_set g ! i) = FREE_ACTION" and "i < length (player_set g)"
  shows "next_special R (player_set g ! i) = None \<longrightarrow>
           pre_apply_action R g i = Raised AttributeError g"
    and "next_special R (player_set g ! i) = Some special
          \<and> payment_options R g i (SpecialItem special) = Inr opts
          \<and> can_pay opts (trade_left (player_set g ! i)) (trade_right (player_set g ! i)) = Some payment
          \<and> option_picked (player_set g ! i) = Some opt
         \<longrightarrow> pre_apply_action R g i
               = Done (update_player g i (\<lambda>p. p\<lparr>buildings := m2m_add (buildings p) [building opt]\<rparr>))"
  using assms
  by (auto simp: pre_apply_action_def Let_def FREE_ACTION_def BUILD_ACTION_def)

lemma trade_costs_loop_plain:
  "\<forall>e \<in> set es. \<not> left_trade e \<and> \<not> right_trade e \<Longrightarrow> trade_costs_loop d es res = Inr res"
  by (induction es) auto

text \<open>
  C1: what the code does with a pending free build. The second phase, \<open>apply_action\<close>,
  always raises (\<open>NameError\<close> from \<open>can_build_free\<close> when the player has the ability
  in a started game, \<open>AssertionError\<close> otherwise) and leaves the store as it was. So
  the turn is never resolved: \<open>end_of_turn\<close> raises, and in the state that it leaves
  behind the decision of the player is still pending and the free-build ability has not
  been marked used in any age. Before that, the first phase, \<open>pre_apply_action\<close>,
  computes the payment for the next unbuilt special, not for the picked option: it raises
  when no special is left; when there is one and it can be paid, it adds the building of
  the picked option to the buildings of the player and changes nothing else (no money is
  deducted from any player).
\<close>

theorem free_build_raises:
  assumes "i < length (player_set g)" and "action (player_set g ! i) = FREE_ACTION"
  shows "(apply_action R h i (player_set g ! i) = Raised NameError h
          \<or> apply_action R h i (player_set g ! i) = Raised AssertionError h)
     \<and> (\<exists>e g'. end_of_turn R rn g = Raised e g'
            \<and> action (player_set g' ! i) = FREE_ACTION
            \<and> special_free_building_ages_used (player_set g' ! i)
                = special_free_building_ages_used (player_set g ! i)
            \<and> turn g' = turn g)
     \<and> (next_special R (player_set g ! i) = None \<longrightarrow>
           pre_apply_action R g i = Raised AttributeError g)
     \<and> (\<forall>special opts payment opt.
          next_special R (player_set g ! i) = Some special
          \<and> payment_options R g i (SpecialItem special) = Inr opts
          \<and> can_pay opts (trade_left (player_set g ! i)) (trade_right (player_set g ! i)) = Some payment
          \<and> option_picked (player_set g ! i) = Some opt
         \<longrightarrow> pre_apply_action R g i
               = Done (update_player g i (\<lambda>p. p\<lparr>buildings := m2m_add (buildings p) [building opt]\<rparr>))
             \<and> map money (player_set (outcome_state (pre_apply_action R g i)))
                 = map money (player_set g))"
proof -
  from end_of_turn_free[OF assms, of R rn]
  obtain e g' where e: "end_of_turn R rn g = Raised e g'" "frame g' = frame g" by blast
  have 2: "\<exists>e g'. end_of_turn R rn g = Raised e g'
            \<and> action (player_set g' ! i) = FREE_ACTION
            \<and> special_free_building_ages_used (player_set g' ! i)
                = special_free_building_ages_used (player_set g ! i)
            \<and> turn g' = turn g"
    using e frame_action[OF e(2) assms(1)] frame_fields(1)[OF e(2)] assms(2) by auto
  have m: "map money (player_set (update_player g i (\<lambda>p. p\<lparr>buildings := bs p\<rparr>)))
      = map money (player_set g)" for bs
    by (rule proj_update_player) simp
  show ?thesis
    using apply_action_free[OF assms(2), of R h i] 2 pre_apply_free[OF assms(2,1), of R] m
    by auto
qed

theorem free_build_raises_witness:
  "0 < length (player_set ex_game_free)
   \<and> action (player_set ex_game_free ! 0) = FREE_ACTION
   \<and> next_special ex_rules (player_set ex_game_free ! 0) = None
   \<and> apply_action ex_rules ex_game_free 0 (player_set ex_game_free ! 0)
       = Raised NameError ex_game_free
   \<and> pre_apply_action ex_rules ex_game_free 0 = Raised AttributeError ex_game_free
   \<and> (\<exists>e g'. end_of_turn ex_rules ex_rnd ex_game_free = Raised e g'
         \<and> action (player_set g' ! 0) = FREE_ACTION
         \<and> special_free_building_ages_used (player_set g' ! 0) = [])
   \<and> next_special ex_rules_special (player_set ex_game_free ! 0) = Some ex_special
   \<and> payment_options ex_rules_special ex_game_free 0 (SpecialItem ex_special)
       = Inr [\<lparr>payment_money = 2, payment_trade_left = 0, payment_trade_right = 0\<rparr>]
   \<and> pre_apply_action ex_rules_special ex_game_free 0
       = Done (update_player ex_game_free 0
           (\<lambda>p. p\<lparr>buildings := [ex_building 203 203 (Effect_new\<lparr>free_building := True\<rparr>),
                                 ex_building 101 101 Effect_new]\<rparr>))
   \<and> map money (player_set (outcome_state (pre_apply_action ex_rules_special ex_game_free 0)))
       = [3, 3, 3]"
proof -
  let ?p = "player_set ex_game_free ! 0"
  let ?pay = "\<lparr>payment_money = 2, payment_trade_left = 0, payment_trade_right = 0\<rparr>"
  have p: "?p = (ex_dealt 11 ex_hand1)\<lparr>buildings := [ex_building 203 203 (Effect_new\<lparr>free_building := True\<rparr>)],
              action := FREE_ACTION, option_picked := Some (ex_option 101)\<rparr>"
    by (simp add: ex_game_free_def ex_game1_fields)
  have 1: "0 < length (player_set ex_game_free)"
    by (simp add: ex_game_free_def ex_game1_fields)
  have ps: "player_set (save_player ex_game_free 0 ?p) ! 0 = ?p"
    "0 < length (player_set (save_player ex_game_free 0 ?p))"
    using 1 by (simp_all add: save_player_def seen_by_def)
  have 2: "action ?p = FREE_ACTION" by (simp add: p)
  have 3: "next_special ex_rules ?p = None"
    by (simp add: next_special_def ex_rules_fields)
  have ae: "active_effects ex_rules (save_player ex_game_free 0 ?p) 0
      = [building_effect (ex_building 203 203 (Effect_new\<lparr>free_building := True\<rparr>))]"
    by (rule ex_active_effects_one[OF ps(2)]) (simp_all add: ps(1) in_ex_buildings, simp add: p)
  have st: "started (save_player ex_game_free 0 ?p)"
    by (simp add: save_player_def ex_game_free_def update_player_def ex_game1_fields)
  have 4: "can_build_free ex_rules (save_player ex_game_free 0 ?p) 0 = Inl NameError"
    unfolding can_build_free_def ae using st by (simp add: ex_building_fields)
  have 5: "apply_action ex_rules ex_game_free 0 ?p \<noteq> Raised AssertionError ex_game_free"
    using 2 4
    by (simp add: apply_action_def apply_branch_def Let_def assert_def FREE_ACTION_def
        SELL_ACTION_def BUILD_ACTION_def)
  have sf: "special_free_building_ages_used ?p = []"
    by (simp add: p ex_dealt_def ex_player_def)
  have 6: "next_special ex_rules_special ?p = Some ex_special"
    by (simp add: next_special_def ex_rules_special_def ex_special_def p ex_dealt_fields)
  have tr: "\<forall>e \<in> set (active_effects ex_rules_special ex_game_free 0).
             \<not> left_trade e \<and> \<not> right_trade e"
  proof
    fix e assume "e \<in> set (active_effects ex_rules_special ex_game_free 0)"
    then have "e \<in> set (Effect_objects ex_rules_special)"
      using in_active_effects[OF 1, of e ex_rules_special] by simp
    then show "\<not> left_trade e \<and> \<not> right_trade e"
      by (auto simp: ex_rules_special_def ex_rules_fields ex_buildings_def ex_building_fields
          ex_special_def Effect_new_def)
  qed
  have tc: "trade_costs ex_rules_special ex_game_free 0 (CHR ''l'') = Inr (\<lambda>_. DEFAULT_TRADE_COST ex_rules_special)"
    "trade_costs ex_rules_special ex_game_free 0 (CHR ''r'') = Inr (\<lambda>_. DEFAULT_TRADE_COST ex_rules_special)"
    by (simp_all add: trade_costs_def trade_costs_loop_plain[OF tr])
  have gp: "get_payments ex_rules_special = (\<lambda>c m lp tl cl tr cr. [?pay])"
    by (simp add: ex_rules_special_def)
  have 7: "payment_options ex_rules_special ex_game_free 0 (SpecialItem ex_special) = Inr [?pay]"
    by (simp add: payment_options_def Let_def item_in_buildings_def tc gp)
  have 8: "can_pay [?pay] (trade_left ?p) (trade_right ?p) = Some ?pay"
    by (simp add: can_pay_def p ex_dealt_fields)
  have 9: "option_picked ?p = Some (ex_option 101)" by (simp add: p)
  have 10: "update_player ex_game_free 0 (\<lambda>p. p\<lparr>buildings := m2m_add (buildings p) [building (ex_option 101)]\<rparr>)
      = update_player ex_game_free 0
           (\<lambda>p. p\<lparr>buildings := [ex_building 203 203 (Effect_new\<lparr>free_building := True\<rparr>),
                                 ex_building 101 101 Effect_new]\<rparr>)"
    by (simp add: update_player_def p m2m_add_def ex_option_def ex_building_eq)
  have 11: "map money (player_set ex_game_free) = [3, 3, 3]"
    by (simp add: ex_game_free_def ex_game1_fields ex_dealt_fields)
  from free_build_raises[OF 1 2, of ex_rules ex_game_free ex_rnd]
    free_build_raises[OF 1 2, of ex_rules_special ex_game_free ex_rnd]
    1 2 3 5 6 7 8 9 10 11 sf
  show ?thesis by (auto simp del: player_set_update_player)
qed






text \<open>
  C3: what the code does. \<open>play\<close> checks the name of the action and that the option is
  in the hand, and nothing else: whatever the action, the decision is recorded and the
  turn check follows.
\<close>

theorem play_accepts_without_action_checks:
  "act \<in> set (map fst ACTIONS) \<Longrightarrow> opt \<in> set (current_options (player_set g ! i)) \<Longrightarrow>
   play R rn g i act opt tleft tright =
     turn_check R rn (update_player g i
        (\<lambda>p. p\<lparr>action := act, option_picked := Some opt, trade_left := tleft, trade_right := tright\<rparr>))"
  by (simp add: play_def option_ne_def lazy_or_def assert_def)

theorem play_accepts_without_action_checks_witness:
  "FREE_ACTION \<in> set (map fst ACTIONS)
   \<and> ex_option 101 \<in> set (current_options (player_set ex_game1 ! 0))
   \<and> can_build_free ex_rules ex_game1 0 = Inr False
   \<and> play ex_rules ex_rnd ex_game1 0 FREE_ACTION (ex_option 101) 0 0 =
       Done (update_player ex_game1 0
          (\<lambda>p. p\<lparr>action := FREE_ACTION, option_picked := Some (ex_option 101),
                 trade_left := 0, trade_right := 0\<rparr>))"
proof -
  have 1: "FREE_ACTION \<in> set (map fst ACTIONS)" by (simp add: ACTIONS_def)
  have 2: "ex_option 101 \<in> set (current_options (player_set ex_game1 ! 0))"
    by (simp add: ex_game1_fields ex_dealt_fields ex_hand1_def)
  have ae: "active_effects ex_rules ex_game1 0 = []"
    by (rule ex_active_effects_none) (simp_all add: ex_game1_fields ex_dealt_fields)
  have 3: "can_build_free ex_rules ex_game1 0 = Inr False"
    unfolding can_build_free_def ae by simp
  have 4: "turn_check ex_rules ex_rnd (update_player ex_game1 0
          (\<lambda>p. p\<lparr>action := FREE_ACTION, option_picked := Some (ex_option 101),
                 trade_left := 0, trade_right := 0\<rparr>))
      = Done (update_player ex_game1 0
          (\<lambda>p. p\<lparr>action := FREE_ACTION, option_picked := Some (ex_option 101),
                 trade_left := 0, trade_right := 0\<rparr>))"
    by (simp add: turn_check_def missing_players_def update_player_def ex_game1_fields
        ex_dealt_fields)
  from play_accepts_without_action_checks[OF 1 2, of ex_rules ex_rnd 0 0] 1 2 3 4 show ?thesis by simp
qed



section \<open>Starting a game\<close>

subsection \<open>A deal with personalities\<close>

lemma ex_personality_fields:
  "option_age (ex_personality k) = ex_age" "players_needed (ex_personality k) = 3"
  "kind (building (ex_personality k)) = ''per''" "option_id (ex_personality k) = k"
  by (simp_all add: ex_personality_def)

lemma ex_option_id: "option_id (ex_option k) = k"
  by (simp add: ex_option_def)

lemma ex_rules_per_fields:
  "INITIAL_OPTIONS ex_rules_per = 7" "PERSONALITY ex_rules_per = ''per''"
  "BuildOption_objects ex_rules_per =
     map ex_option (ex_hand1 @ ex_hand2 @ [115, 116, 117, 118])
     @ map ex_personality [301, 302, 303, 304, 305, 306]"
  by (simp_all add: ex_rules_per_def ex_rules_fields)

lemma ex_per_eligible:
  assumes "age g = ex_age" and "length (player_set g) = 3"
  shows "eligible_options ex_rules_per g = map ex_option (ex_hand1 @ ex_hand2 @ [115, 116, 117, 118])"
    and "eligible_personalities ex_rules_per g = map ex_personality [301, 302, 303, 304, 305, 306]"
  using assms
  by (simp_all add: eligible_options_def eligible_personalities_def ex_rules_per_fields filter_map
      comp_def ex_option_fields ex_personality_fields)

lemma shuffle_options_unshuffled:
  assumes "rnd_options rn = []" and "rnd_personalities rn = []" and "rnd_shuffle rn = []"
    and "actual_personalities (length (player_set g)) (length (player_set g) * INITIAL_OPTIONS R)
           (length (eligible_options R g)) (length (eligible_personalities R g)) = int k"
    and "k \<le> length (eligible_personalities R g)"
    and "int (length (player_set g) * INITIAL_OPTIONS R) - int k = int m"
    and "m \<le> length (eligible_options R g)"
  shows "shuffle_options R rn g = take m (eligible_options R g) @ take k (eligible_personalities R g)"
proof -
  have 1: "slice_start (length (eligible_personalities R g)) (int k) = k"
    using assms(5) by (simp add: slice_start_def)
  have 2: "slice_start (length (eligible_options R g)) (int m) = m"
    using assms(7) by (simp add: slice_start_def)
  have 3: "int (length (player_set g)) * int (INITIAL_OPTIONS R) - int k = int m"
    using assms(6) by simp
  show ?thesis
    unfolding shuffle_options_def Let_def assms(1-3) shuffled_Nil assms(4) 1
    using assms(5) by (simp add: 3 2 min_absorb2)
qed

lemma ex_per_shuffle_options:
  assumes "age g = ex_age" and "length (player_set g) = 3"
  shows "shuffle_options ex_rules_per ex_rnd g =
     map ex_option ex_hand1 @ map ex_option ex_hand2
     @ (map ex_option [115, 116] @ map ex_personality [301, 302, 303, 304, 305])"
proof -
  note e = ex_per_eligible[OF assms]
  have l: "length (eligible_options ex_rules_per g) = 18"
    "length (eligible_personalities ex_rules_per g) = 6"
    by (simp_all add: e ex_hands_length)
  have a: "actual_personalities 3 21 18 6 = int 5"
    by (simp add: actual_personalities_def Let_def)
  have "shuffle_options ex_rules_per ex_rnd g
      = take 16 (eligible_options ex_rules_per g) @ take 5 (eligible_personalities ex_rules_per g)"
    by (rule shuffle_options_unshuffled)
       (simp_all add: ex_rnd_def l assms(2) ex_rules_per_fields a)
  then show ?thesis
    by (simp add: e ex_hands_length)
qed

lemma ex_per_distinct: "distinct (BuildOption_objects ex_rules_per)"
proof -
  have "map option_id (BuildOption_objects ex_rules_per)
      = ex_hand1 @ ex_hand2 @ [115, 116, 117, 118, 301, 302, 303, 304, 305, 306]"
    by (simp add: ex_rules_per_fields comp_def ex_option_id ex_personality_fields)
  moreover have "distinct (ex_hand1 @ ex_hand2 @ [115, 116, 117, 118, 301, 302, 303, 304, 305, 306 :: nat])"
    by (simp add: ex_hand1_def ex_hand2_def)
  ultimately have "distinct (map option_id (BuildOption_objects ex_rules_per))" by simp
  then show ?thesis by (simp add: distinct_map)
qed

lemma deal_three:
  assumes "player_set g = [p1, p2, p3]"
    and "current_options p1 = []" "current_options p2 = []" "current_options p3 = []"
    and "INITIAL_OPTIONS R = 7" and "length h1 = 7" "length h2 = 7"
    and "distinct (h1 @ h2 @ h3)"
  shows "deal R [0..<3] (h1 @ h2 @ h3) g =
     Done (g\<lparr>player_set := [p1\<lparr>current_options := h1\<rparr>, p2\<lparr>current_options := h2\<rparr>,
                              p3\<lparr>current_options := take 7 h3\<rparr>]\<rparr>)"
proof -
  have u: "[0..<3] = [0, 1, 2::nat]" by (simp add: upt_rec)
  have d: "remdups h1 = h1" "remdups h2 = h2" "remdups (take 7 h3) = take 7 h3"
    using assms(8) by (simp_all add: distinct_remdups_id)
  show ?thesis
    unfolding u
    by (simp add: assms(1-7) update_player_def m2m_add_def d)
qed

lemma ex_per_shuffle: "shuffle ex_rules_per ex_rnd (ex_game0\<lparr>started := True\<rparr>) = Done ex_game_per"
proof -
  let ?g = "ex_game0\<lparr>started := True\<rparr>"
  let ?h3 = "map ex_option [115, 116] @ map ex_personality [301, 302, 303, 304, 305]"
  let ?xs = "map ex_option ex_hand1 @ map ex_option ex_hand2 @ ?h3"
  have g: "age ?g = ex_age" "length (player_set ?g) = 3"
    by (simp_all add: ex_game0_fields)
  have so: "shuffle_options ex_rules_per ex_rnd ?g = ?xs"
    by (rule ex_per_shuffle_options[OF g])
  have "distinct (shuffle_options ex_rules_per ex_rnd ?g)"
    by (rule distinct_shuffle_options[OF ex_per_distinct])
  then have dist: "distinct ?xs" unfolding so .
  have "deal ex_rules_per [0..<3] ?xs ?g =
     Done (?g\<lparr>player_set := [(ex_player 11)\<lparr>current_options := map ex_option ex_hand1\<rparr>,
                               (ex_player 12)\<lparr>current_options := map ex_option ex_hand2\<rparr>,
                               (ex_player 13)\<lparr>current_options := take 7 ?h3\<rparr>]\<rparr>)"
    by (rule deal_three[OF _ _ _ _ _ _ _ dist])
       (simp_all add: ex_game0_fields ex_player_def ex_rules_per_fields ex_hands_length)
  then have d: "deal ex_rules_per [0..<3] ?xs ?g = Done ex_game_per"
    by (simp add: ex_game_per_def ex_dealt_def)
  show ?thesis
    unfolding shuffle_def Let_def so ex_per_eligible[OF g] g(2)
    using d by (simp add: ex_game0_fields ex_rules_per_fields ex_hands_length)
qed

theorem shuffle_deals_full_hands_witness:
  "shuffle ex_rules_per ex_rnd (ex_game0\<lparr>started := True\<rparr>) = Done ex_game_per
   \<and> distinct (BuildOption_objects ex_rules_per)
   \<and> length (player_set (ex_game0\<lparr>started := True\<rparr>)) = 3
   \<and> spec_required_personalities ex_rules_per (ex_game0\<lparr>started := True\<rparr>) = 3
   \<and> spec_available_personalities ex_rules_per (ex_game0\<lparr>started := True\<rparr>) = 6
   \<and> map (\<lambda>p. length (current_options p)) (player_set ex_game_per) = [7, 7, 7]
   \<and> length (dealt ex_game_per) = 21
   \<and> spec_personalities_used ex_rules_per ex_game_per = 5"
proof -
  let ?g = "ex_game0\<lparr>started := True\<rparr>"
  have n: "length (player_set ?g) = 3" by (simp add: ex_game0_fields)
  have r: "spec_required_personalities ex_rules_per ?g = 3"
    by (simp add: spec_required_personalities_def spec_eligible_def ex_rules_per_fields
        ex_game0_fields filter_map comp_def ex_option_fields ex_personality_fields ex_hands_length)
  have a: "spec_available_personalities ex_rules_per ?g = 6"
    by (simp add: spec_available_personalities_def spec_eligible_def ex_rules_per_fields
        ex_game0_fields filter_map comp_def ex_option_fields ex_personality_fields)
  have h: "map (\<lambda>p. length (current_options p)) (player_set ex_game_per) = [7, 7, 7]"
    by (simp add: ex_game_per_def ex_dealt_fields ex_hands_length)
  from shuffle_deals_full_hands[OF ex_per_shuffle ex_per_distinct] ex_per_shuffle ex_per_distinct
    n r a h
  show ?thesis by (simp add: ex_rules_per_fields)
qed

lemma ex_rules_short_fields:
  "MINIMUM_PLAYERS ex_rules_short = 3" "INITIAL_OPTIONS ex_rules_short = 7"
  "PERSONALITY ex_rules_short = ''per''" "Age_first ex_rules_short = ex_age"
  "BuildOption_objects ex_rules_short = map ex_option (ex_hand1 @ ex_hand2)"
  by (simp_all add: ex_rules_short_def ex_rules_fields)

lemma ex_short_eligible:
  "eligible_options ex_rules_short ex_game0 = map ex_option (ex_hand1 @ ex_hand2)"
  "eligible_personalities ex_rules_short ex_game0 = []"
  by (simp_all add: eligible_options_def eligible_personalities_def ex_rules_short_fields
      ex_game0_fields filter_map comp_def ex_option_fields)

lemma ex_short_start:
  "start ex_rules_short ex_rnd ex_game0 = Raised DoesNotExist (ex_game0\<lparr>started := True\<rparr>)"
  by (simp add: start_def is_startable_def shuffle_def Let_def ex_rules_short_fields
      ex_game0_fields ex_short_eligible ex_hands_length)

text \<open>
  C4, as the claim states it, fails: with too few options \<open>start\<close> raises the setup error
  after it has saved \<open>started\<close>, so the game is left started, without hands.
\<close>

theorem start_failure_counterexample:
  "is_startable ex_rules_short ex_game0
   \<and> length (eligible_options ex_rules_short ex_game0)
       + length (eligible_personalities ex_rules_short ex_game0)
       < length (player_set ex_game0) * INITIAL_OPTIONS ex_rules_short
   \<and> start ex_rules_short ex_rnd ex_game0 = Raised DoesNotExist (ex_game0\<lparr>started := True\<rparr>)
   \<and> started (outcome_state (start ex_rules_short ex_rnd ex_game0))"
  by (simp add: ex_short_start is_startable_def ex_rules_short_fields ex_game0_fields
      ex_short_eligible ex_hands_length)

text \<open>
  C4, amended: for a game that can be started and is as new (not finished, first age,
  no discards, turn 1, empty hands), with fewer than \<open>n \<times> INITIAL_OPTIONS\<close> eligible
  options \<open>start\<close> raises the setup error and leaves the game started, with no hand
  dealt; with at least that many, and \<open>n + 2 \<le> n \<times> INITIAL_OPTIONS\<close>, it succeeds and
  leaves the game started, at turn 1, with full hands.
\<close>

theorem start_outcome:
  assumes "is_startable R g" and "\<not> finished g" and "age g = Age_first R"
    and "discards g = []" and "turn g = 1"
    and "\<forall>p \<in> set (player_set g). current_options p = []"
    and "distinct (BuildOption_objects R)"
  shows "(length (eligible_options R g) + length (eligible_personalities R g)
            < length (player_set g) * INITIAL_OPTIONS R
          \<longrightarrow> start R rn g = Raised DoesNotExist (g\<lparr>started := True\<rparr>))
       \<and> (length (player_set g) * INITIAL_OPTIONS R
            \<le> length (eligible_options R g) + length (eligible_personalities R g)
          \<and> length (player_set g) + 2 \<le> length (player_set g) * INITIAL_OPTIONS R
          \<longrightarrow> (\<exists>g'. start R rn g = Done g' \<and> started g' \<and> \<not> finished g' \<and> turn g' = 1
                 \<and> length (player_set g') = length (player_set g)
                 \<and> (\<forall>p \<in> set (player_set g'). length (current_options p) = INITIAL_OPTIONS R)))"
  using start_cases[OF assms] by blast

theorem start_outcome_witness:
  "is_startable ex_rules ex_game0 \<and> \<not> finished ex_game0 \<and> age ex_game0 = Age_first ex_rules
   \<and> discards ex_game0 = [] \<and> turn ex_game0 = 1
   \<and> map current_options (player_set ex_game0) = [[], [], []]
   \<and> distinct (BuildOption_objects ex_rules) \<and> distinct (BuildOption_objects ex_rules_short)
   \<and> length (eligible_options ex_rules_short ex_game0)
       + length (eligible_personalities ex_rules_short ex_game0)
       < length (player_set ex_game0) * INITIAL_OPTIONS ex_rules_short
   \<and> start ex_rules_short ex_rnd ex_game0 = Raised DoesNotExist (ex_game0\<lparr>started := True\<rparr>)
   \<and> length (player_set ex_game0) * INITIAL_OPTIONS ex_rules
       \<le> length (eligible_options ex_rules ex_game0)
         + length (eligible_personalities ex_rules ex_game0)
   \<and> length (player_set ex_game0) + 2 \<le> length (player_set ex_game0) * INITIAL_OPTIONS ex_rules
   \<and> start ex_rules ex_rnd ex_game0 = Done ex_game1 \<and> started ex_game1 \<and> turn ex_game1 = 1
   \<and> map (\<lambda>p. length (current_options p)) (player_set ex_game1) = [7, 7, 7]"
proof -
  have 1: "is_startable ex_rules ex_game0" "is_startable ex_rules_short ex_game0"
    by (simp_all add: is_startable_def ex_game0_fields ex_rules_fields ex_rules_short_fields)
  have 2: "\<not> finished ex_game0" "age ex_game0 = Age_first ex_rules"
    "age ex_game0 = Age_first ex_rules_short" "discards ex_game0 = []" "turn ex_game0 = 1"
    by (simp_all add: ex_game0_fields ex_rules_fields ex_rules_short_fields)
  have 3: "\<forall>p \<in> set (player_set ex_game0). current_options p = []"
    by (simp add: ex_game0_fields ex_player_def)
  have 4: "distinct (BuildOption_objects ex_rules_short)"
    using ex_distinct by (auto simp: ex_rules_fields ex_rules_short_fields)
  have 5: "length (eligible_options ex_rules_short ex_game0)
       + length (eligible_personalities ex_rules_short ex_game0)
       < length (player_set ex_game0) * INITIAL_OPTIONS ex_rules_short"
    by (simp add: ex_short_eligible ex_hands_length ex_game0_fields ex_rules_short_fields)
  have 6: "length (player_set ex_game0) * INITIAL_OPTIONS ex_rules
       \<le> length (eligible_options ex_rules ex_game0)
         + length (eligible_personalities ex_rules ex_game0)"
    "length (player_set ex_game0) + 2 \<le> length (player_set ex_game0) * INITIAL_OPTIONS ex_rules"
    by (simp_all add: ex_eligible ex_hands_length ex_game0_fields ex_rules_fields)
  have a: "start ex_rules_short ex_rnd ex_game0 = Raised DoesNotExist (ex_game0\<lparr>started := True\<rparr>)"
    using start_outcome[OF 1(2) 2(1,3,4,5) 3 4, of ex_rnd] 5 by blast
  have "\<exists>g'. start ex_rules ex_rnd ex_game0 = Done g' \<and> started g' \<and> \<not> finished g'
          \<and> turn g' = 1 \<and> length (player_set g') = length (player_set ex_game0)
          \<and> (\<forall>p \<in> set (player_set g'). length (current_options p) = INITIAL_OPTIONS ex_rules)"
    using start_outcome[OF 1(1) 2(1,2,4,5) 3 ex_distinct, of ex_rnd] 6 by blast
  then have b: "start ex_rules ex_rnd ex_game0 = Done ex_game1 \<and> started ex_game1
          \<and> turn ex_game1 = 1
          \<and> map (\<lambda>p. length (current_options p)) (player_set ex_game1) = [7, 7, 7]"
    by (auto simp: ex_start ex_game1_fields ex_dealt_fields ex_hands_length)
  have c: "map current_options (player_set ex_game0) = [[], [], []]"
    by (simp add: ex_game0_fields ex_player_def)
  show ?thesis
    using 1(1) 2(1,2,4,5) c 4 5 6 ex_distinct a b by (intro conjI) simp_all
qed




section \<open>Battles at the end of an age\<close>


lemma fight_token:
  "fight R i nd g = g\<lparr>battleresult_set := battleresult_set g @ battle_token R g i nd\<rparr>"
  by (simp add: fight_def battle_token_def Let_def)

lemma military_cong:
  assumes "map buildings (player_set h) = map buildings (player_set g)"
    and "city (player_set h ! i) = city (player_set g ! i)"
    and "variant (player_set h ! i) = variant (player_set g ! i)"
    and "specials_built (player_set h ! i) = specials_built (player_set g ! i)"
  shows "military R h i = military R g i"
  by (simp add: military_def active_effects_cong[OF assms])

lemma battle_token_cong:
  assumes "player_set h = player_set g" and "age h = age g"
  shows "battle_token R h i nd = battle_token R g i nd"
proof -
  have "military R h j = military R g j" for j
    by (rule military_cong) (simp_all add: assms(1))
  then show ?thesis by (simp add: battle_token_def assms(2))
qed

lemma neighbors_cong:
  "length (player_set h) = length (player_set g) \<Longrightarrow>
   left_player h i = left_player g i \<and> right_player h i = right_player g i"
  by (simp add: left_player_def right_player_def get_previous_in_order_def
      get_next_in_order_def)

lemma battles_fold:
  assumes "player_set h = player_set g" and "age h = age g"
  shows "fold (\<lambda>i g'. fold (fight R i) [(left_player g' i, CHR ''l''), (right_player g' i, CHR ''r'')] g') js h
     = h\<lparr>battleresult_set := battleresult_set h @
          concat (map (\<lambda>i. battle_token R g i (left_player g i, CHR ''l'')
                      @ battle_token R g i (right_player g i, CHR ''r'')) js)\<rparr>"
  using assms
proof (induction js arbitrary: h)
  case Nil
  then show ?case by simp
next
  case (Cons j js)
  let ?h1 = "fold (fight R j) [(left_player h j, CHR ''l''), (right_player h j, CHR ''r'')] h"
  have n: "left_player h j = left_player g j" "right_player h j = right_player g j"
    using neighbors_cong[of h g j] Cons.prems by simp_all
  have h1: "?h1 = h\<lparr>battleresult_set := battleresult_set h @
       (battle_token R g j (left_player g j, CHR ''l'') @ battle_token R g j (right_player g j, CHR ''r''))\<rparr>"
  proof -
    have a: "battle_token R h j nd = battle_token R g j nd" for nd
      using Cons.prems by (intro battle_token_cong) simp_all
    have b: "battle_token R (h\<lparr>battleresult_set := bs\<rparr>) j nd = battle_token R g j nd" for nd bs
      using Cons.prems by (intro battle_token_cong) simp_all
    show ?thesis by (simp add: fight_token n a b)
  qed
  have "player_set ?h1 = player_set g" "age ?h1 = age g"
    unfolding h1 using Cons.prems by simp_all
  from Cons.IH[OF this]
  have "fold (\<lambda>i g'. fold (fight R i) [(left_player g' i, CHR ''l''), (right_player g' i, CHR ''r'')] g') js ?h1
     = ?h1\<lparr>battleresult_set := battleresult_set ?h1 @
          concat (map (\<lambda>i. battle_token R g i (left_player g i, CHR ''l'')
                      @ battle_token R g i (right_player g i, CHR ''r'')) js)\<rparr>" .
  then have "fold (\<lambda>i g'. fold (fight R i) [(left_player g' i, CHR ''l''), (right_player g' i, CHR ''r'')] g') (j # js) h
     = ?h1\<lparr>battleresult_set := battleresult_set ?h1 @
          concat (map (\<lambda>i. battle_token R g i (left_player g i, CHR ''l'')
                      @ battle_token R g i (right_player g i, CHR ''r'')) js)\<rparr>"
    by (simp only: fold_simps)
  then show ?case
    unfolding h1 by simp
qed

lemma battles_tokens:
  "battles R g = g\<lparr>battleresult_set := battleresult_set g @ battle_tokens R g\<rparr>"
  unfolding battles_def battle_tokens_def
  by (rule battles_fold) simp_all

lemma discard_loop:
  "set js \<subseteq> {..<length (player_set g)} \<Longrightarrow>
   player_set (fold discard_options js g)
     = map (\<lambda>(i, p). if i \<in> set js then p\<lparr>current_options := []\<rparr> else p)
         (zip [0..<length (player_set g)] (player_set g))
   \<and> age (fold discard_options js g) = age g
   \<and> battleresult_set (fold discard_options js g) = battleresult_set g
   \<and> turn (fold discard_options js g) = turn g
   \<and> started (fold discard_options js g) = started g
   \<and> finished (fold discard_options js g) = finished g"
proof (induction js arbitrary: g)
  case Nil
  have "map (\<lambda>(i, p). p) (zip [0..<length (player_set g)] (player_set g)) = player_set g"
    by (rule nth_equalityI) auto
  then show ?case by simp
next
  case (Cons j js)
  let ?g1 = "discard_options j g"
  have j: "j < length (player_set g)" using Cons.prems by simp
  have len: "length (player_set ?g1) = length (player_set g)"
    by (simp add: discard_options_def update_player_def)
  have ps1: "player_set ?g1 = (player_set g)[j := (player_set g ! j)\<lparr>current_options := []\<rparr>]"
    by (simp add: discard_options_def update_player_def)
  have "set js \<subseteq> {..<length (player_set ?g1)}" using Cons.prems len by simp
  from Cons.IH[OF this]
  have IH: "player_set (fold discard_options js ?g1)
     = map (\<lambda>(i, p). if i \<in> set js then p\<lparr>current_options := []\<rparr> else p)
         (zip [0..<length (player_set g)] (player_set ?g1))"
    and rest: "age (fold discard_options js ?g1) = age ?g1"
      "battleresult_set (fold discard_options js ?g1) = battleresult_set ?g1"
      "turn (fold discard_options js ?g1) = turn ?g1"
      "started (fold discard_options js ?g1) = started ?g1"
      "finished (fold discard_options js ?g1) = finished ?g1"
    by (simp_all add: len)
  have "map (\<lambda>(i, p). if i \<in> set js then p\<lparr>current_options := []\<rparr> else p)
         (zip [0..<length (player_set g)] (player_set ?g1))
      = map (\<lambda>(i, p). if i \<in> set (j # js) then p\<lparr>current_options := []\<rparr> else p)
         (zip [0..<length (player_set g)] (player_set g))"
  proof (rule nth_equalityI)
    show "length (map (\<lambda>(i, p). if i \<in> set js then p\<lparr>current_options := []\<rparr> else p)
         (zip [0..<length (player_set g)] (player_set ?g1)))
      = length (map (\<lambda>(i, p). if i \<in> set (j # js) then p\<lparr>current_options := []\<rparr> else p)
         (zip [0..<length (player_set g)] (player_set g)))"
      by (simp add: len)
  next
    fix i assume "i < length (map (\<lambda>(i, p). if i \<in> set js then p\<lparr>current_options := []\<rparr> else p)
         (zip [0..<length (player_set g)] (player_set ?g1)))"
    then have i: "i < length (player_set g)" by (simp add: len)
    show "map (\<lambda>(i, p). if i \<in> set js then p\<lparr>current_options := []\<rparr> else p)
         (zip [0..<length (player_set g)] (player_set ?g1)) ! i
      = map (\<lambda>(i, p). if i \<in> set (j # js) then p\<lparr>current_options := []\<rparr> else p)
         (zip [0..<length (player_set g)] (player_set g)) ! i"
      using i by (cases "i = j") (simp_all add: ps1 len)
  qed
  moreover have "age ?g1 = age g" "battleresult_set ?g1 = battleresult_set g"
    "turn ?g1 = turn g" "started ?g1 = started g" "finished ?g1 = finished g"
    by (simp_all add: discard_options_def update_player_def)
  ultimately show ?case
    using IH rest by simp
qed


lemma discard_all:
  "player_set (fold discard_options [0..<length (player_set g)] g)
     = map (\<lambda>p. p\<lparr>current_options := []\<rparr>) (player_set g)
   \<and> age (fold discard_options [0..<length (player_set g)] g) = age g
   \<and> battleresult_set (fold discard_options [0..<length (player_set g)] g) = battleresult_set g
   \<and> turn (fold discard_options [0..<length (player_set g)] g) = turn g
   \<and> started (fold discard_options [0..<length (player_set g)] g) = started g
   \<and> finished (fold discard_options [0..<length (player_set g)] g) = finished g"
proof -
  have "map (\<lambda>(i, p). if i \<in> set [0..<length (player_set g)] then p\<lparr>current_options := []\<rparr> else p)
         (zip [0..<length (player_set g)] (player_set g))
      = map (\<lambda>p. p\<lparr>current_options := []\<rparr>) (player_set g)"
    by (rule nth_equalityI) auto
  moreover have "set [0..<length (player_set g)] \<subseteq> {..<length (player_set g)}" by auto
  note discard_loop[OF this]
  ultimately show ?thesis by simp
qed

lemma military_discarded:
  assumes "player_set h = map (\<lambda>p. p\<lparr>current_options := []\<rparr>) (player_set g)"
    and "i < length (player_set g)"
  shows "military R h i = military R g i"
  by (rule military_cong) (simp_all add: assms comp_def)

lemma battle_tokens_discarded:
  assumes "player_set h = map (\<lambda>p. p\<lparr>current_options := []\<rparr>) (player_set g)" and "age h = age g"
  shows "battle_tokens R h = battle_tokens R g"
proof -
  have len: "length (player_set h) = length (player_set g)" using assms(1) by simp
  have n: "left_player h i = left_player g i" "right_player h i = right_player g i" for i
    using neighbors_cong[OF len] by simp_all
  have lt: "left_player g i < length (player_set g)" "right_player g i < length (player_set g)"
    if "i < length (player_set g)" for i
    using that by (auto simp: left_player_def right_player_def get_previous_in_order_def
        get_next_in_order_def)
  have e: "battle_token R h i (left_player g i, d) = battle_token R g i (left_player g i, d)"
    "battle_token R h i (right_player g i, d) = battle_token R g i (right_player g i, d)"
    if "i < length (player_set g)" for i d
    using that lt[OF that] by (simp_all add: battle_token_def assms(2) military_discarded[OF assms(1)])
  show ?thesis
    unfolding battle_tokens_def len n
    by (intro arg_cong[where f = concat] map_cong refl) (simp add: e)
qed

lemma deal_static:
  "battleresult_set (outcome_state (deal R js xs g)) = battleresult_set g
   \<and> turn (outcome_state (deal R js xs g)) = turn g
   \<and> started (outcome_state (deal R js xs g)) = started g
   \<and> finished (outcome_state (deal R js xs g)) = finished g
   \<and> age (outcome_state (deal R js xs g)) = age g
   \<and> map user (player_set (outcome_state (deal R js xs g))) = map user (player_set g)
   \<and> map city (player_set (outcome_state (deal R js xs g))) = map city (player_set g)"
proof (induction js arbitrary: xs g)
  case Nil
  then show ?case by simp
next
  case (Cons j js)
  show ?case
  proof (cases "current_options (player_set g ! j) = []")
    case False
    then show ?thesis by simp
  next
    case True
    let ?g1 = "update_player g j (\<lambda>p. p\<lparr>current_options :=
                 m2m_add (current_options p) (take (INITIAL_OPTIONS R) xs)\<rparr>)"
    have "deal R (j # js) xs g = deal R js (drop (INITIAL_OPTIONS R) xs) ?g1"
      using True by simp
    moreover have "battleresult_set ?g1 = battleresult_set g" "turn ?g1 = turn g"
      "started ?g1 = started g" "finished ?g1 = finished g" "age ?g1 = age g"
      by (simp_all add: update_player_def)
    moreover have "map user (player_set ?g1) = map user (player_set g)"
      "map city (player_set ?g1) = map city (player_set g)"
      by (simp_all add: proj_update_player del: player_set_update_player)
    ultimately show ?thesis
      using Cons.IH[of "drop (INITIAL_OPTIONS R) xs" ?g1] by simp
  qed
qed

lemma shuffle_static:
  "battleresult_set (outcome_state (shuffle R rn g)) = battleresult_set g
   \<and> turn (outcome_state (shuffle R rn g)) = turn g
   \<and> started (outcome_state (shuffle R rn g)) = started g
   \<and> finished (outcome_state (shuffle R rn g)) = finished g
   \<and> age (outcome_state (shuffle R rn g)) = age g
   \<and> map user (player_set (outcome_state (shuffle R rn g))) = map user (player_set g)
   \<and> map city (player_set (outcome_state (shuffle R rn g))) = map city (player_set g)"
  using deal_static[of R "[0..<length (player_set g)]" "shuffle_options R rn g" g]
  by (simp add: shuffle_def Let_def)

lemma end_of_age_tokens:
  "battleresult_set (outcome_state (end_of_age R rn g)) = battleresult_set g @ battle_tokens R g"
proof -
  let ?g1 = "fold discard_options [0..<length (player_set g)] g"
  note d = discard_all[of g]
  have t: "battle_tokens R ?g1 = battle_tokens R g"
    using d by (intro battle_tokens_discarded) simp_all
  have b: "battleresult_set (battles R ?g1) = battleresult_set g @ battle_tokens R g"
    using d by (simp add: battles_tokens t)
  show ?thesis
  proof (cases "Age_next R (age (battles R ?g1))")
    case None
    then show ?thesis by (simp add: end_of_age_def Let_def b)
  next
    case (Some a)
    then show ?thesis
      using shuffle_static[of R rn "(battles R ?g1)\<lparr>age := a, turn := 1\<rparr>"]
      by (simp add: end_of_age_def Let_def b)
  qed
qed

lemma concat_map_single:
  "i < n \<Longrightarrow> concat (map (\<lambda>j. if j = i then X else []) [0..<n]) = X"
  by (induction n) (auto simp: less_Suc_eq)

lemma filter_battle_tokens:
  assumes "i < length (player_set g)"
  shows "filter (\<lambda>b. owner b = i \<and> battle_direction b = CHR ''l'') (battle_tokens R g)
           = battle_token R g i (left_player g i, CHR ''l'')"
    and "filter (\<lambda>b. owner b = i \<and> battle_direction b = CHR ''r'') (battle_tokens R g)
           = battle_token R g i (right_player g i, CHR ''r'')"
proof -
  have l: "filter (\<lambda>b. owner b = i \<and> battle_direction b = CHR ''l'')
             (battle_token R g j (left_player g j, CHR ''l'') @ battle_token R g j (right_player g j, CHR ''r''))
         = (if j = i then battle_token R g i (left_player g i, CHR ''l'') else [])" for j
    by (auto simp: battle_token_def)
  have r: "filter (\<lambda>b. owner b = i \<and> battle_direction b = CHR ''r'')
             (battle_token R g j (left_player g j, CHR ''l'') @ battle_token R g j (right_player g j, CHR ''r''))
         = (if j = i then battle_token R g i (right_player g i, CHR ''r'') else [])" for j
    by (auto simp: battle_token_def)
  show "filter (\<lambda>b. owner b = i \<and> battle_direction b = CHR ''l'') (battle_tokens R g)
           = battle_token R g i (left_player g i, CHR ''l'')"
    unfolding battle_tokens_def filter_concat map_map comp_def l
    by (rule concat_map_single[OF assms])
  show "filter (\<lambda>b. owner b = i \<and> battle_direction b = CHR ''r'') (battle_tokens R g)
           = battle_token R g i (right_player g i, CHR ''r'')"
    unfolding battle_tokens_def filter_concat map_map comp_def r
    by (rule concat_map_single[OF assms])
qed

lemma battle_created:
  assumes "i < length (player_set g)"
    and "(nb, d) = (left_player g i, CHR ''l'') \<or> (nb, d) = (right_player g i, CHR ''r'')"
  shows "filter (\<lambda>b. owner b = i \<and> battle_direction b = d) (battle_tokens R g)
           = battle_token R g i (nb, d)"
  using assms(2) filter_battle_tokens[OF assms(1), of R] by auto

text \<open>
  C8: what \<open>end_of_age\<close> creates. For every player and each of the two neighbors, a
  battle result of the player in that direction is created if and only if the values that
  \<open>Player.military\<close> returns for the two differ, at most one, in the current age; it
  is a victory, scored with the victory score of the age, when the value of the neighbor
  is below the value of the player in the order of Python 2, and a defeat, scored with
  the defeat score, otherwise. The value of a player without effect rows is \<open>None\<close>:
  it differs from the sum 0 of a player whose effects have no military power, and it is
  below it.
\<close>

theorem battle_results_of_end_of_age:
  assumes "i < length (player_set g)"
    and "(nb, d) = (left_player g i, CHR ''l'') \<or> (nb, d) = (right_player g i, CHR ''r'')"
  shows "\<exists>created.
      battleresult_set (outcome_state (end_of_age R rn g)) = battleresult_set g @ created
    \<and> ((\<exists>b \<in> set created. owner b = i \<and> battle_direction b = d)
         \<longleftrightarrow> military R g i \<noteq> military R g nb)
    \<and> length (filter (\<lambda>b. owner b = i \<and> battle_direction b = d) created) \<le> 1
    \<and> (\<forall>b \<in> set created. owner b = i \<and> battle_direction b = d \<longrightarrow>
          battle_age b = age g
          \<and> battle_score b = (if py_less (military R g nb) (military R g i)
                              then victory_score (age g) else defeat_score (age g)))"
proof (intro exI conjI)
  let ?c = "battle_tokens R g"
  let ?P = "\<lambda>b. owner b = i \<and> battle_direction b = d"
  note f = battle_created[OF assms, of R]
  show "battleresult_set (outcome_state (end_of_age R rn g)) = battleresult_set g @ ?c"
    by (rule end_of_age_tokens)
  have s: "{b \<in> set ?c. ?P b} = set (battle_token R g i (nb, d))"
    using arg_cong[OF f, of set] by simp
  show "(\<exists>b \<in> set ?c. ?P b) \<longleftrightarrow> military R g i \<noteq> military R g nb"
  proof -
    have "(\<exists>b \<in> set ?c. ?P b) \<longleftrightarrow> set (battle_token R g i (nb, d)) \<noteq> {}"
      unfolding s[symmetric] by blast
    then show ?thesis by (simp add: battle_token_def)
  qed
  show "length (filter ?P ?c) \<le> 1"
    unfolding f by (simp add: battle_token_def)
  show "\<forall>b \<in> set ?c. ?P b \<longrightarrow> battle_age b = age g
          \<and> battle_score b = (if py_less (military R g nb) (military R g i)
                              then victory_score (age g) else defeat_score (age g))"
  proof (intro ballI impI)
    fix b assume "b \<in> set ?c" "?P b"
    then have "b \<in> set (battle_token R g i (nb, d))" unfolding s[symmetric] by simp
    then show "battle_age b = age g
          \<and> battle_score b = (if py_less (military R g nb) (military R g i)
                              then victory_score (age g) else defeat_score (age g))"
      by (auto simp: battle_token_def battle_score_def split: if_splits)
  qed
qed

theorem battle_results_of_end_of_age_witness:
  "0 < length (player_set ex_game_civil)
   \<and> (2, CHR ''l'') = (left_player ex_game_civil 0, CHR ''l'')
   \<and> sum_list (map effect_military (active_effects ex_rules ex_game_civil 0)) = 0
   \<and> sum_list (map effect_military (active_effects ex_rules ex_game_civil 2)) = 0
   \<and> military ex_rules ex_game_civil 0 = Some 0
   \<and> military ex_rules ex_game_civil 2 = None
   \<and> (\<exists>b. b \<in> set (battleresult_set (outcome_state (end_of_age ex_rules ex_rnd ex_game_civil)))
          \<and> owner b = 0 \<and> battle_direction b = CHR ''l'' \<and> battle_age b = ex_age
          \<and> battle_score b = 1)"
proof -
  have n: "length (player_set ex_game_civil) = 3"
    by (simp add: ex_game_civil_def ex_game1_fields)
  have 1: "0 < length (player_set ex_game_civil)" using n by simp
  have 2: "(2, CHR ''l'') = (left_player ex_game_civil 0, CHR ''l'')"
    by (simp add: left_player_def get_previous_in_order_def n)
  have a0: "active_effects ex_rules ex_game_civil 0 = [building_effect (ex_building 207 207 Effect_new)]"
    by (rule ex_active_effects_one)
       (simp_all add: n in_ex_buildings, simp add: ex_game_civil_def ex_game1_fields)
  have a2: "active_effects ex_rules ex_game_civil 2 = []"
    by (rule ex_active_effects_none)
       (simp_all add: n, simp add: ex_game_civil_def ex_game1_fields ex_dealt_fields)
  have m: "military ex_rules ex_game_civil 0 = Some 0" "military ex_rules ex_game_civil 2 = None"
    by (simp_all add: military_def a0 a2 ex_building_fields Effect_new_def)
  have s: "sum_list (map effect_military (active_effects ex_rules ex_game_civil 0)) = 0"
    "sum_list (map effect_military (active_effects ex_rules ex_game_civil 2)) = 0"
    by (simp_all add: a0 a2 ex_building_fields Effect_new_def)
  have age: "age ex_game_civil = ex_age"
    by (simp add: ex_game_civil_def update_player_def ex_game1_fields)
  from battle_results_of_end_of_age[OF 1, of 2 "CHR ''l''" ex_rules ex_rnd] 2
  obtain created where c:
    "battleresult_set (outcome_state (end_of_age ex_rules ex_rnd ex_game_civil))
       = battleresult_set ex_game_civil @ created"
    "(\<exists>b \<in> set created. owner b = 0 \<and> battle_direction b = CHR ''l'')
       \<longleftrightarrow> military ex_rules ex_game_civil 0 \<noteq> military ex_rules ex_game_civil 2"
    "\<forall>b \<in> set created. owner b = 0 \<and> battle_direction b = CHR ''l'' \<longrightarrow>
          battle_age b = age ex_game_civil
          \<and> battle_score b = (if py_less (military ex_rules ex_game_civil 2) (military ex_rules ex_game_civil 0)
                              then victory_score (age ex_game_civil) else defeat_score (age ex_game_civil))"
    by blast
  from c(2) m obtain b where b: "b \<in> set created" "owner b = 0" "battle_direction b = CHR ''l''"
    by auto
  with c(3) m have "battle_age b = ex_age" "battle_score b = 1"
    by (simp_all add: age ex_age_def)
  with b c(1) have "\<exists>b. b \<in> set (battleresult_set (outcome_state (end_of_age ex_rules ex_rnd ex_game_civil)))
          \<and> owner b = 0 \<and> battle_direction b = CHR ''l'' \<and> battle_age b = ex_age
          \<and> battle_score b = 1"
    by auto
  with 1 2 s m show ?thesis by simp
qed



section \<open>The rotation of the hands\<close>

lemma nth_map_eq:
  "map f xs = map f ys \<Longrightarrow> i < length xs \<Longrightarrow> f (xs ! i) = f (ys ! i)"
  by (metis length_map nth_map)







lemma pre_loop:
  "frame (outcome_state (for_each (\<lambda>i g. pre_apply_action R g i) js g)) = frame g
   \<and> map current_options (player_set (outcome_state (for_each (\<lambda>i g. pre_apply_action R g i) js g)))
       = map current_options (player_set g)"
  using for_each_preserves[of frame "\<lambda>i g. pre_apply_action R g i" js g]
    for_each_preserves[of "\<lambda>g. map current_options (player_set g)" "\<lambda>i g. pre_apply_action R g i" js g]
    frame_pre_apply_action hands_pre_apply_action
  by simp

lemma rotate_options_length:
  "rotate_options d hs = Some opts \<Longrightarrow> length opts = length hs"
  by (auto simp: rotate_options_def split: if_splits)















section \<open>Invariants of the reachable states\<close>


lemma battles_static:
  "player_set (battles R g) = player_set g" "turn (battles R g) = turn g"
  "started (battles R g) = started g" "finished (battles R g) = finished g"
  "age (battles R g) = age g"
  by (simp_all add: battles_tokens)

lemma ids_update_hands:
  "length opts = length ps \<Longrightarrow>
   map (\<lambda>p. (user p, city p)) (map (\<lambda>(p, os). p\<lparr>current_options := f os\<rparr>) (zip ps opts))
     = map (\<lambda>p. (user p, city p)) ps"
  by (rule nth_equalityI) auto

lemma shuffle_ids:
  "map (\<lambda>p. (user p, city p)) (player_set (outcome_state (shuffle R rn g)))
     = map (\<lambda>p. (user p, city p)) (player_set g)"
proof -
  let ?s = "outcome_state (shuffle R rn g)"
  have u: "map user (player_set ?s) = map user (player_set g)"
    and c: "map city (player_set ?s) = map city (player_set g)"
    using shuffle_static[of R rn g] by simp_all
  have len: "length (player_set ?s) = length (player_set g)"
    using arg_cong[OF u, of length] by simp
  show ?thesis
  proof (rule nth_equalityI)
    show "length (map (\<lambda>p. (user p, city p)) (player_set ?s))
        = length (map (\<lambda>p. (user p, city p)) (player_set g))" using len by simp
  next
    fix i assume "i < length (map (\<lambda>p. (user p, city p)) (player_set ?s))"
    then have i: "i < length (player_set ?s)" by simp
    show "map (\<lambda>p. (user p, city p)) (player_set ?s) ! i
        = map (\<lambda>p. (user p, city p)) (player_set g) ! i"
      using nth_map_eq[OF u i] nth_map_eq[OF c i] i len by simp
  qed
qed

lemma frame_ids:
  assumes "frame g' = frame g"
  shows "map (\<lambda>p. (user p, city p)) (player_set g') = map (\<lambda>p. (user p, city p)) (player_set g)"
proof (rule nth_equalityI)
  show "length (map (\<lambda>p. (user p, city p)) (player_set g'))
      = length (map (\<lambda>p. (user p, city p)) (player_set g))"
    using frame_fields(7)[OF assms] by simp
next
  fix i assume "i < length (map (\<lambda>p. (user p, city p)) (player_set g'))"
  then have i: "i < length (player_set g')" by simp
  show "map (\<lambda>p. (user p, city p)) (player_set g') ! i
      = map (\<lambda>p. (user p, city p)) (player_set g) ! i"
    using nth_map_eq[OF frame_fields(8)[OF assms] i] nth_map_eq[OF frame_fields(9)[OF assms] i]
      i frame_fields(7)[OF assms] by simp
qed

text \<open>What the end of an age leaves behind.\<close>

lemma end_of_age_outcome:
  shows "(started g \<and> \<not> finished g \<longrightarrow>
      started (outcome_state (end_of_age R rn g))
    \<and> ((finished (outcome_state (end_of_age R rn g))
          \<and> turn (outcome_state (end_of_age R rn g)) = turn g
          \<and> (\<forall>p \<in> set (player_set (outcome_state (end_of_age R rn g))). current_options p = []))
        \<or> (\<not> finished (outcome_state (end_of_age R rn g))
          \<and> turn (outcome_state (end_of_age R rn g)) = 1)))
    \<and> map (\<lambda>p. (user p, city p)) (player_set (outcome_state (end_of_age R rn g)))
        = map (\<lambda>p. (user p, city p)) (player_set g)"
proof -
  let ?g1 = "fold discard_options [0..<length (player_set g)] g"
  let ?g2 = "battles R ?g1"
  note d = discard_all[of g]
  have ps2: "player_set ?g2 = map (\<lambda>p. p\<lparr>current_options := []\<rparr>) (player_set g)"
    using d by (simp add: battles_static)
  have f2: "turn ?g2 = turn g" "started ?g2 = started g" "finished ?g2 = finished g"
    using d by (simp_all add: battles_static)
  have ids2: "map (\<lambda>p. (user p, city p)) (player_set ?g2) = map (\<lambda>p. (user p, city p)) (player_set g)"
    by (simp add: ps2 comp_def)
  show ?thesis
  proof (cases "Age_next R (age ?g2)")
    case None
    then have "outcome_state (end_of_age R rn g) = ?g2\<lparr>finished := True\<rparr>"
      by (simp add: end_of_age_def Let_def)
    then show ?thesis using f2 ids2 ps2 by simp
  next
    case (Some a)
    let ?g3 = "?g2\<lparr>age := a, turn := 1\<rparr>"
    have o: "outcome_state (end_of_age R rn g) = outcome_state (shuffle R rn ?g3)"
      using Some by (simp add: end_of_age_def Let_def)
    have "started (outcome_state (shuffle R rn ?g3)) = started g"
      "finished (outcome_state (shuffle R rn ?g3)) = finished g"
      "turn (outcome_state (shuffle R rn ?g3)) = 1"
      using shuffle_static[of R rn ?g3] f2 by simp_all
    moreover have "map (\<lambda>p. (user p, city p)) (player_set (outcome_state (shuffle R rn ?g3)))
        = map (\<lambda>p. (user p, city p)) (player_set g)"
      using shuffle_ids[of R rn ?g3] ids2 by simp
    ultimately show ?thesis unfolding o by simp
  qed
qed

lemma end_of_turn_outcome:
  shows "(started g \<and> \<not> finished g \<and> 1 \<le> turn g \<and> turn g \<le> TURN_COUNT R
           \<longrightarrow> turn_invariant R (outcome_state (end_of_turn R rn g)))
    \<and> map (\<lambda>p. (user p, city p)) (player_set (outcome_state (end_of_turn R rn g)))
        = map (\<lambda>p. (user p, city p)) (player_set g)"
proof -
  let ?js = "[0..<length (player_set g)]"
  have keep: "(started g \<and> \<not> finished g \<and> 1 \<le> turn g \<and> turn g \<le> TURN_COUNT R
           \<longrightarrow> turn_invariant R s)
      \<and> map (\<lambda>p. (user p, city p)) (player_set s) = map (\<lambda>p. (user p, city p)) (player_set g)"
    if "frame s = frame g" for s
    using frame_fields[OF that] frame_ids[OF that] by (simp add: turn_invariant_def)
  show ?thesis
  proof (cases "for_each (\<lambda>i g. pre_apply_action R g i) ?js g")
    case (Raised e g1)
    then have "frame g1 = frame g" using pre_loop[of R ?js g] by simp
    moreover have "end_of_turn R rn g = Raised e g1"
      using Raised by (simp add: end_of_turn_def Let_def)
    ultimately show ?thesis using keep[of g1] by simp
  next
    case pre: (Done g1)
    then have f1: "frame g1 = frame g" using pre_loop[of R ?js g] by simp
    have len1: "length (player_set g1) = length (player_set g)" using frame_fields(7)[OF f1] .
    have z: "zip ?js (player_set g1) = map (\<lambda>i. (i, player_set g1 ! i)) [0..<length (player_set g1)]"
      using zip_upt_nth[of "player_set g1"] len1 by simp
    have loop: "frame (outcome_state (for_each (\<lambda>(i, self) g. apply_action R g i self)
                  (zip ?js (player_set g1)) g1)) = frame g1"
      unfolding z by (rule frame_apply_loop) auto
    show ?thesis
    proof (cases "for_each (\<lambda>(i, self) g. apply_action R g i self) (zip ?js (player_set g1)) g1")
      case (Raised e g2)
      then have "frame g2 = frame g" using loop f1 by simp
      moreover have "end_of_turn R rn g = Raised e g2"
        using Raised pre by (simp add: end_of_turn_def Let_def)
      ultimately show ?thesis using keep[of g2] by simp
    next
      case app: (Done g2)
      then have f2: "frame g2 = frame g" using loop f1 by simp
      note k2 = frame_fields[OF f2]
      show ?thesis
      proof (cases "rotate_options (age_direction (age g2)) (map current_options (player_set g2))")
        case None
        then have "end_of_turn R rn g = Raised AssertionError g2"
          using pre app by (simp add: end_of_turn_def Let_def)
        then show ?thesis using keep[OF f2] by simp
      next
        case (Some opts)
        let ?g3 = "g2\<lparr>player_set := map (\<lambda>(p, os). p\<lparr>current_options := m2m_add [] os\<rparr>)
                               (zip (player_set g2) opts)\<rparr>"
        let ?g4 = "?g3\<lparr>turn := turn ?g3 + 1\<rparr>"
        have lopts: "length opts = length (player_set g2)"
          using rotate_options_length[OF Some] by simp
        have ids4: "map (\<lambda>p. (user p, city p)) (player_set ?g4)
            = map (\<lambda>p. (user p, city p)) (player_set g)"
          using ids_update_hands[OF lopts, of "m2m_add []"] frame_ids[OF f2] by simp
        have f4: "started ?g4 = started g" "finished ?g4 = finished g" "turn ?g4 = turn g + 1"
          using k2 by simp_all
        have e: "end_of_turn R rn g =
            (case (if TURN_COUNT R < turn ?g4 then end_of_age R rn ?g4 else Done ?g4) of
               Raised e g5 \<Rightarrow> Raised e g5
             | Done g5 \<Rightarrow> Done (g5\<lparr>player_set := map reset_action (player_set g5)\<rparr>))"
          using pre app Some by (simp add: end_of_turn_def Let_def)
        have reset: "map (\<lambda>p. (user p, city p)) (map reset_action ps) = map (\<lambda>p. (user p, city p)) ps"
          for ps by (simp add: comp_def reset_action_def)
        show ?thesis
        proof (cases "TURN_COUNT R < turn ?g4")
          case False
          then have "end_of_turn R rn g = Done (?g4\<lparr>player_set := map reset_action (player_set ?g4)\<rparr>)"
            unfolding e by simp
          then show ?thesis
            using False f4 ids4 reset[of "player_set ?g4"]
            by (simp add: turn_invariant_def del: map_map)
        next
          case True
          let ?s = "outcome_state (end_of_age R rn ?g4)"
          let ?A = "started g \<and> \<not> finished g \<and> 1 \<le> turn g \<and> turn g \<le> TURN_COUNT R"
          note a = end_of_age_outcome[of ?g4 R rn]
          have inv: "?A \<longrightarrow> turn_invariant R ?s"
          proof
            assume A: ?A
            then have t4: "turn ?g4 = TURN_COUNT R + 1" using f4 True by simp
            show "turn_invariant R ?s"
              using a t4 A f4 by (auto simp: turn_invariant_def)
          qed
          have ids: "map (\<lambda>p. (user p, city p)) (player_set ?s)
              = map (\<lambda>p. (user p, city p)) (player_set g)"
            using a ids4 by simp
          show ?thesis
          proof (cases "end_of_age R rn ?g4")
            case (Raised e5 g5)
            then have "end_of_turn R rn g = Raised e5 g5" unfolding e using True by simp
            then show ?thesis using Raised inv ids by simp
          next
            case (Done g5)
            then have o: "end_of_turn R rn g = Done (g5\<lparr>player_set := map reset_action (player_set g5)\<rparr>)"
              unfolding e using True by simp
            have "?A \<longrightarrow> turn_invariant R g5" using inv Done by simp
            then have "?A \<longrightarrow> turn_invariant R (g5\<lparr>player_set := map reset_action (player_set g5)\<rparr>)"
              by (auto simp: turn_invariant_def reset_action_def)
            moreover have "map (\<lambda>p. (user p, city p)) (player_set g5)
                = map (\<lambda>p. (user p, city p)) (player_set g)" using ids Done by simp
            ultimately show ?thesis
              unfolding o using reset[of "player_set g5"] by (simp del: map_map)
          qed
        qed
      qed
    qed
  qed
qed


lemma choice_in: "xs \<noteq> [] \<Longrightarrow> choice r xs \<in> set xs"
  by (simp add: choice_def)

lemma join_Done:
  assumes "join R rn g u = Done g'"
  shows "\<not> started g
    \<and> (\<exists>p. g' = g\<lparr>player_set := player_set g @ [p]\<rparr> \<and> user p = u \<and> current_options p = []
          \<and> city p \<in> set (City_objects R) \<and> city p \<notin> city ` set (player_set g)
          \<and> u \<notin> user ` set (player_set g))"
proof -
  let ?p = "\<lparr>user = u, city = choice (rnd_city rn) (available_cities R g),
             variant = choice (rnd_variant rn) (allowed_variants g),
             money = INITIAL_MONEY R, specials_built = 0, buildings = [],
             special_free_building_ages_used = [], current_options = [],
             option_picked = None, action = [], trade_left = 0, trade_right = 0\<rparr>"
  from assms have j: "is_joinable R g None" "allowed_variants g \<noteq> []" "available_cities R g \<noteq> []"
    "unique_together g ?p" "g' = g\<lparr>player_set := player_set g @ [?p]\<rparr>"
    by (auto simp: join_def Let_def split: if_splits)
  have "city ?p \<in> set (available_cities R g)" using choice_in[OF j(3)] by simp
  then have "city ?p \<in> set (City_objects R)" by (simp add: available_cities_def)
  moreover have "city ?p \<notin> city ` set (player_set g)" "u \<notin> user ` set (player_set g)"
    using j(4) by (simp_all add: unique_together_def)
  moreover have "\<not> started g" using j(1) by (simp add: is_joinable_def)
  ultimately show ?thesis using j(5) by (intro conjI exI[of _ ?p]) simp_all
qed

lemma join_Raised: "join R rn g u = Raised e g' \<Longrightarrow> g' = g"
  by (auto simp: join_def Let_def split: if_splits)

lemma join_refused:
  "started g \<or> u \<in> user ` set (player_set g) \<Longrightarrow> \<exists>e. join R rn g u = Raised e g"
  by (auto simp: join_def Let_def is_joinable_def unique_together_def)

lemma ids_distinct:
  assumes "map (\<lambda>p. (user p, city p)) (player_set g') = map (\<lambda>p. (user p, city p)) (player_set g)"
  shows "map user (player_set g') = map user (player_set g)"
    and "map city (player_set g') = map city (player_set g)"
proof -
  from arg_cong[OF assms, of "map fst"] show "map user (player_set g') = map user (player_set g)"
    by (simp add: comp_def)
  from arg_cong[OF assms, of "map snd"] show "map city (player_set g') = map city (player_set g)"
    by (simp add: comp_def)
qed

lemma start_outcome_state:
  "outcome_state (start R rn g) = g
   \<or> (\<not> started g \<and> outcome_state (start R rn g) = outcome_state (shuffle R rn (g\<lparr>started := True\<rparr>)))"
  by (simp add: start_def is_startable_def)

lemma play_outcome_state:
  "outcome_state (play R rn g i act opt tleft tright) = g
   \<or> (opt \<in> set (current_options (player_set g ! i))
      \<and> outcome_state (play R rn g i act opt tleft tright)
          = outcome_state (turn_check R rn (update_player g i
              (\<lambda>p. p\<lparr>action := act, option_picked := Some opt,
                     trade_left := tleft, trade_right := tright\<rparr>))))"
  by (simp add: play_def option_ne_def lazy_or_def assert_def)

lemma reachable_users:
  "reachable R g \<Longrightarrow> distinct (map city (player_set g)) \<and> distinct (map user (player_set g))"
proof (induction rule: reachable.induct)
  case (reachable_new variants)
  then show ?case by (simp add: Game_new_def)
next
  case (reachable_join g rn u)
  show ?case
  proof (cases "join R rn g u")
    case (Done g')
    from join_Done[OF Done] obtain p where "g' = g\<lparr>player_set := player_set g @ [p]\<rparr>"
      "user p = u" "city p \<notin> city ` set (player_set g)" "u \<notin> user ` set (player_set g)" by blast
    then show ?thesis using Done reachable_join.IH by simp
  next
    case (Raised e g')
    then show ?thesis using join_Raised[OF Raised] reachable_join.IH by simp
  qed
next
  case (reachable_start g rn)
  from start_outcome_state[of R rn g] show ?case
  proof
    assume "outcome_state (start R rn g) = g"
    then show ?thesis using reachable_start.IH by simp
  next
    assume a: "\<not> started g \<and> outcome_state (start R rn g) = outcome_state (shuffle R rn (g\<lparr>started := True\<rparr>))"
    have "map (\<lambda>p. (user p, city p)) (player_set (outcome_state (start R rn g)))
        = map (\<lambda>p. (user p, city p)) (player_set g)"
      using a shuffle_ids[of R rn "g\<lparr>started := True\<rparr>"] by simp
    from ids_distinct[OF this] show ?thesis using reachable_start.IH by simp
  qed
next
  case (reachable_play g i rn act opt tleft tright)
  let ?g1 = "update_player g i (\<lambda>p. p\<lparr>action := act, option_picked := Some opt,
                     trade_left := tleft, trade_right := tright\<rparr>)"
  from play_outcome_state[of R rn g i act opt tleft tright] show ?case
  proof
    assume "outcome_state (play R rn g i act opt tleft tright) = g"
    then show ?thesis using reachable_play.IH by simp
  next
    assume a: "opt \<in> set (current_options (player_set g ! i))
      \<and> outcome_state (play R rn g i act opt tleft tright) = outcome_state (turn_check R rn ?g1)"
    have ids1: "map (\<lambda>p. (user p, city p)) (player_set ?g1) = map (\<lambda>p. (user p, city p)) (player_set g)"
      by (simp add: proj_update_player del: player_set_update_player)
    have "map (\<lambda>p. (user p, city p)) (player_set (outcome_state (turn_check R rn ?g1)))
        = map (\<lambda>p. (user p, city p)) (player_set g)"
      using end_of_turn_outcome[of ?g1 R rn] ids1 by (simp add: turn_check_def)
    then have "map (\<lambda>p. (user p, city p)) (player_set (outcome_state (play R rn g i act opt tleft tright)))
        = map (\<lambda>p. (user p, city p)) (player_set g)" using a by simp
    from ids_distinct[OF this] show ?thesis using reachable_play.IH by simp
  qed
qed

lemma reachable_turn:
  assumes "1 \<le> TURN_COUNT R"
  shows "reachable R g \<Longrightarrow> turn_invariant R g"
proof (induction rule: reachable.induct)
  case (reachable_new variants)
  then show ?case using assms by (simp add: Game_new_def turn_invariant_def)
next
  case (reachable_join g rn u)
  show ?case
  proof (cases "join R rn g u")
    case (Done g')
    from join_Done[OF Done] obtain p where "g' = g\<lparr>player_set := player_set g @ [p]\<rparr>"
      "current_options p = []" by blast
    then show ?thesis using Done reachable_join.IH by (auto simp: turn_invariant_def)
  next
    case (Raised e g')
    then show ?thesis using join_Raised[OF Raised] reachable_join.IH by simp
  qed
next
  case (reachable_start g rn)
  from start_outcome_state[of R rn g] show ?case
  proof
    assume "outcome_state (start R rn g) = g"
    then show ?thesis using reachable_start.IH by simp
  next
    assume a: "\<not> started g \<and> outcome_state (start R rn g) = outcome_state (shuffle R rn (g\<lparr>started := True\<rparr>))"
    then show ?thesis
      using shuffle_static[of R rn "g\<lparr>started := True\<rparr>"] reachable_start.IH
      by (auto simp: turn_invariant_def)
  qed
next
  case (reachable_play g i rn act opt tleft tright)
  let ?g1 = "update_player g i (\<lambda>p. p\<lparr>action := act, option_picked := Some opt,
                     trade_left := tleft, trade_right := tright\<rparr>)"
  from play_outcome_state[of R rn g i act opt tleft tright] show ?case
  proof
    assume "outcome_state (play R rn g i act opt tleft tright) = g"
    then show ?thesis using reachable_play.IH by simp
  next
    assume a: "opt \<in> set (current_options (player_set g ! i))
      \<and> outcome_state (play R rn g i act opt tleft tright) = outcome_state (turn_check R rn ?g1)"
    then have "current_options (player_set g ! i) \<noteq> []" by auto
    moreover have "player_set g ! i \<in> set (player_set g)" using reachable_play.hyps(2) by simp
    ultimately have sf: "started g" "\<not> finished g"
      using reachable_play.IH unfolding turn_invariant_def by blast+
    then have t: "1 \<le> turn g" "turn g \<le> TURN_COUNT R"
      using reachable_play.IH unfolding turn_invariant_def by blast+
    have g1: "started ?g1" "\<not> finished ?g1" "1 \<le> turn ?g1" "turn ?g1 \<le> TURN_COUNT R"
      using sf t by (simp_all add: update_player_def)
    have "turn_invariant R (outcome_state (turn_check R rn ?g1))"
    proof (cases "missing_players ?g1 = []")
      case True
      then show ?thesis using end_of_turn_outcome[of ?g1 R rn] g1 by (simp add: turn_check_def)
    next
      case False
      then show ?thesis using g1 by (simp add: turn_check_def turn_invariant_def)
    qed
    then show ?thesis using a by simp
  qed
qed

text \<open>
  C9, amended: in every state that a new game reaches through \<open>join\<close>, \<open>start\<close>
  and \<open>play\<close>, whether they return or raise, a finished game is a started game; the
  turn counter of a game that is not finished lies between 1 and \<open>TURN_COUNT\<close>; and
  the turn counter of a finished game is \<open>TURN_COUNT + 1\<close>. There is at least one
  turn in an age.
\<close>

theorem turn_counter_invariant:
  "reachable R g \<Longrightarrow> 1 \<le> TURN_COUNT R \<Longrightarrow>
   (finished g \<longrightarrow> started g) \<and> (\<not> finished g \<longrightarrow> 1 \<le> turn g \<and> turn g \<le> TURN_COUNT R)
   \<and> (finished g \<longrightarrow> turn g = TURN_COUNT R + 1)"
  using reachable_turn[of R g] by (simp add: turn_invariant_def)

text \<open>
  C10: \<open>join\<close> returns only for a game that has not started, and then the new player
  has a city of the catalog that no player of the game held and a user that was not
  playing in the game; for a started game and for a user who is playing in the game it
  raises and changes nothing; so in every reachable state the cities of the players of
  the game are different from each other, and so are their users.
\<close>

theorem join_keeps_cities_and_users_apart:
  "(join R rn g u = Done g' \<longrightarrow>
      \<not> started g
      \<and> (\<exists>p. g' = g\<lparr>player_set := player_set g @ [p]\<rparr> \<and> user p = u
            \<and> city p \<in> set (City_objects R) \<and> city p \<notin> city ` set (player_set g)
            \<and> u \<notin> user ` set (player_set g)))
   \<and> (started g \<or> u \<in> user ` set (player_set g) \<longrightarrow> (\<exists>e. join R rn g u = Raised e g))
   \<and> (reachable R g \<longrightarrow>
        distinct (map city (player_set g)) \<and> distinct (map user (player_set g)))"
  using join_Done[of R rn g u g'] join_refused[of g u R rn] reachable_users[of R g] by blast



section \<open>The course of the example game\<close>

lemma ex_seat_fields:
  "action (ex_seat k m h None) = []" "action (ex_seat k m h (Some x)) = SELL_ACTION"
  "option_picked (ex_seat k m h None) = None"
  "option_picked (ex_seat k m h (Some x)) = Some (ex_option x)"
  "current_options (ex_seat k m h d) = map ex_option h"
  "money (ex_seat k m h d) = m" "buildings (ex_seat k m h d) = []"
  "specials_built (ex_seat k m h d) = 0" "user (ex_seat k m h d) = k"
  "city (ex_seat k m h d) = ex_city k" "variant (ex_seat k m h d) = 0"
  "trade_left (ex_seat k m h d) = 0" "trade_right (ex_seat k m h d) = 0"
  by (simp_all add: ex_seat_def ex_player_def)

lemma ex_seat_updates:
  "(ex_seat k m h d)\<lparr>money := m'\<rparr> = ex_seat k m' h d"
  "(ex_seat k m h d)\<lparr>current_options := map ex_option h'\<rparr> = ex_seat k m h' d"
  "reset_action (ex_seat k m h d) = ex_seat k m h None"
  "(ex_seat k m h None)\<lparr>action := SELL_ACTION, option_picked := Some (ex_option x),
      trade_left := 0, trade_right := 0\<rparr> = ex_seat k m h (Some x)"
  by (simp_all add: ex_seat_def ex_player_def reset_action_def)

lemma ex_state_fields:
  "age (ex_state t ds ps) = ex_age" "turn (ex_state t ds ps) = t" "discards (ex_state t ds ps) = ds"
  "started (ex_state t ds ps)" "\<not> finished (ex_state t ds ps)" "player_set (ex_state t ds ps) = ps"
  "battleresult_set (ex_state t ds ps) = []"
  by (simp_all add: ex_state_def)

lemma ex_state_updates:
  "(ex_state t ds ps)\<lparr>player_set := ps'\<rparr> = ex_state t ds ps'"
  "(ex_state t ds ps)\<lparr>discards := ds'\<rparr> = ex_state t ds' ps"
  "(ex_state t ds ps)\<lparr>turn := t'\<rparr> = ex_state t' ds ps"
  by (simp_all add: ex_state_def)

lemma ex_remove:
  "m2m_remove (map ex_option h) (ex_option x) = map ex_option (removeAll x h)"
  by (induction h) (auto simp: m2m_remove_def ex_option_inj)

lemma pre_apply_action_sell:
  "action (player_set g ! i) = SELL_ACTION \<Longrightarrow> pre_apply_action R g i = Done g"
  by (simp add: pre_apply_action_def SELL_ACTION_def BUILD_ACTION_def FREE_ACTION_def)

lemma apply_action_sell:
  assumes "action self = SELL_ACTION" and "option_picked self = Some opt"
    and "i < length (player_set g)" and "player_set g ! i = self"
  shows "apply_action R g i self =
     Done (g\<lparr>discards := m2m_add (discards g) [opt],
            player_set := (player_set g)[i := self\<lparr>money := money self + SELL_VALUE R,
                current_options := m2m_remove (current_options self) opt\<rparr>]\<rparr>)"
proof -
  have s: "seen_by (g\<lparr>discards := ds\<rparr>) i (self\<lparr>money := m\<rparr>) = self\<lparr>money := m\<rparr>" for ds m
    by (simp add: seen_by_def assms(4))
  have b: "apply_branch R g i self =
      Done (g\<lparr>discards := m2m_add (discards g) [opt],
             player_set := (player_set g)[i := self\<lparr>money := money self + SELL_VALUE R\<rparr>]\<rparr>)"
    using assms(1,2) by (simp add: apply_branch_def save_player_def s)
  show ?thesis
    using assms(1,2,3)
    by (simp add: apply_action_def b update_player_def SELL_ACTION_def)
qed


lemma upt3: "[0..<3] = [0, 1, 2]"
  by (simp add: upt_rec)

text \<open>The two loops and the rotation of a turn in which the three players sell.\<close>

lemma sell_loops:
  fixes R rn t ds m1 m2 m3 h1 h2 h3 x1 x2 x3
  assumes "g0 = ex_state t ds [ex_seat 11 m1 h1 (Some x1), ex_seat 12 m2 h2 (Some x2),
                               ex_seat 13 m3 h3 (Some x3)]"
    and "g3 = ex_state t
                (m2m_add (m2m_add (m2m_add ds [ex_option x1]) [ex_option x2]) [ex_option x3])
                [ex_seat 11 (m1 + SELL_VALUE R) (removeAll x1 h1) (Some x1),
                 ex_seat 12 (m2 + SELL_VALUE R) (removeAll x2 h2) (Some x2),
                 ex_seat 13 (m3 + SELL_VALUE R) (removeAll x3 h3) (Some x3)]"
  shows "for_each (\<lambda>i g. pre_apply_action R g i) [0..<length (player_set g0)] g0 = Done g0"
    and "for_each (\<lambda>(i, self) g. apply_action R g i self)
           (zip [0..<length (player_set g0)] (player_set g0)) g0 = Done g3"
    and "rotate_options (age_direction (age g3)) (map current_options (player_set g3))
      = Some [map ex_option (removeAll x2 h2), map ex_option (removeAll x3 h3),
              map ex_option (removeAll x1 h1)]"
proof -
  let ?p1 = "ex_seat 11 m1 h1 (Some x1)"
  let ?p2 = "ex_seat 12 m2 h2 (Some x2)"
  let ?p3 = "ex_seat 13 m3 h3 (Some x3)"
  let ?q1 = "ex_seat 11 (m1 + SELL_VALUE R) (removeAll x1 h1) (Some x1)"
  let ?q2 = "ex_seat 12 (m2 + SELL_VALUE R) (removeAll x2 h2) (Some x2)"
  let ?q3 = "ex_seat 13 (m3 + SELL_VALUE R) (removeAll x3 h3) (Some x3)"
  let ?d1 = "m2m_add ds [ex_option x1]"
  let ?d2 = "m2m_add ?d1 [ex_option x2]"
  let ?d3 = "m2m_add ?d2 [ex_option x3]"
  have len: "length (player_set g0) = 3" by (simp add: assms(1) ex_state_fields)
  have ps: "player_set g0 = [?p1, ?p2, ?p3]" by (simp add: assms(1) ex_state_fields)
  have pre: "pre_apply_action R s i = Done s" if "player_set s = [r1, r2, r3]"
    "action r1 = SELL_ACTION" "action r2 = SELL_ACTION" "action r3 = SELL_ACTION" "i < 3" for s i r1 r2 r3
  proof -
    have "action (player_set s ! i) = SELL_ACTION"
      using that by (cases i; simp add: nth_Cons split: nat.splits)
    then show ?thesis by (rule pre_apply_action_sell)
  qed
  have p0: "pre_apply_action R g0 k = Done g0" if "k < 3" for k
    by (rule pre[OF ps _ _ _ that]) (simp_all add: ex_seat_fields)
  show "for_each (\<lambda>i g. pre_apply_action R g i) [0..<length (player_set g0)] g0 = Done g0"
    unfolding len upt3 by (simp add: p0)
  have upd: "(ex_seat k m h (Some x))\<lparr>money := m + v,
                current_options := m2m_remove (map ex_option h) (ex_option x)\<rparr>
      = ex_seat k (m + v) (removeAll x h) (Some x)" for k m h x v
    by (simp add: ex_remove ex_seat_updates)
  have a0: "apply_action R g0 0 ?p1 = Done (ex_state t ?d1 [?q1, ?p2, ?p3])"
    by (subst apply_action_sell[where opt = "ex_option x1"])
       (simp_all add: ps ex_seat_fields upd assms(1) ex_state_def)
  have a1: "apply_action R (ex_state t ?d1 [?q1, ?p2, ?p3]) 1 ?p2 = Done (ex_state t ?d2 [?q1, ?q2, ?p3])"
    by (subst apply_action_sell[where opt = "ex_option x2"])
       (simp_all add: ex_seat_fields upd ex_state_def)
  have a2: "apply_action R (ex_state t ?d2 [?q1, ?q2, ?p3]) 2 ?p3 = Done (ex_state t ?d3 [?q1, ?q2, ?q3])"
    by (subst apply_action_sell[where opt = "ex_option x3"])
       (simp_all add: ex_seat_fields upd ex_state_def)
  have z: "zip [0..<length (player_set g0)] (player_set g0) = [(0, ?p1), (1, ?p2), (2, ?p3)]"
    unfolding len upt3 ps by simp
  show "for_each (\<lambda>(i, self) g. apply_action R g i self)
           (zip [0..<length (player_set g0)] (player_set g0)) g0 = Done g3"
    unfolding z assms(2)
    by (simp only: for_each.simps prod.case a0 a1 a2 outcome.case)
  show "rotate_options (age_direction (age g3)) (map current_options (player_set g3))
      = Some [map ex_option (removeAll x2 h2), map ex_option (removeAll x3 h3),
              map ex_option (removeAll x1 h1)]"
    by (simp add: assms(2) rotate_options_def ex_state_fields ex_seat_fields ex_age_def)
qed


lemma end_of_age_last:
  assumes "Age_next R (age g) = None"
  shows "\<exists>g'. end_of_age R rn g = Done g' \<and> finished g' \<and> turn g' = turn g
           \<and> started g' = started g"
proof -
  let ?g2 = "battles R (fold discard_options [0..<length (player_set g)] g)"
  note d = discard_all[of g]
  have a: "age ?g2 = age g" "turn ?g2 = turn g" "started ?g2 = started g"
    using d by (simp_all add: battles_static)
  have "end_of_age R rn g = Done (?g2\<lparr>finished := True\<rparr>)"
    using assms a(1) by (simp add: end_of_age_def Let_def)
  then show ?thesis using a by simp
qed


lemma sell_turn_last:
  assumes "TURN_COUNT R < Suc t" and "Age_next R ex_age = None"
  shows "\<exists>g'. end_of_turn R rn
      (ex_state t ds [ex_seat 11 m1 h1 (Some x1), ex_seat 12 m2 h2 (Some x2), ex_seat 13 m3 h3 (Some x3)])
      = Done g' \<and> finished g' \<and> started g' \<and> turn g' = Suc t"
proof -
  note l = sell_loops[OF refl refl, where R = R and t = t and ds = ds and ?m1.0 = m1 and ?h1.0 = h1
      and ?x1.0 = x1 and ?m2.0 = m2 and ?h2.0 = h2 and ?x2.0 = x2 and ?m3.0 = m3 and ?h3.0 = h3 and ?x3.0 = x3]
  let ?g3 = "ex_state t
                (m2m_add (m2m_add (m2m_add ds [ex_option x1]) [ex_option x2]) [ex_option x3])
                [ex_seat 11 (m1 + SELL_VALUE R) (removeAll x1 h1) (Some x1),
                 ex_seat 12 (m2 + SELL_VALUE R) (removeAll x2 h2) (Some x2),
                 ex_seat 13 (m3 + SELL_VALUE R) (removeAll x3 h3) (Some x3)]"
  let ?opts = "[map ex_option (removeAll x2 h2), map ex_option (removeAll x3 h3),
              map ex_option (removeAll x1 h1)]"
  let ?g4 = "?g3\<lparr>player_set := map (\<lambda>(p, os). p\<lparr>current_options := m2m_add [] os\<rparr>)
                               (zip (player_set ?g3) ?opts), turn := Suc t\<rparr>"
  have g4: "age ?g4 = ex_age" "turn ?g4 = Suc t" "started ?g4"
    by (simp_all add: ex_state_fields)
  from end_of_age_last[of R ?g4 rn] assms(2) g4 obtain g5
    where g5: "end_of_age R rn ?g4 = Done g5" "finished g5" "turn g5 = Suc t" "started g5"
    by auto
  have "end_of_turn R rn
      (ex_state t ds [ex_seat 11 m1 h1 (Some x1), ex_seat 12 m2 h2 (Some x2), ex_seat 13 m3 h3 (Some x3)])
      = Done (g5\<lparr>player_set := map reset_action (player_set g5)\<rparr>)"
    unfolding end_of_turn_def Let_def l(1) l(2) outcome.case l(3) option.case
    using assms(1) g5(1) by (simp add: ex_state_fields)
  then show ?thesis using g5 by simp
qed


subsection \<open>Three turns of the example game\<close>

lemma ex_game1_state:
  "ex_game1 = ex_state 1 [] [ex_seat 11 3 ex_hand1 None, ex_seat 12 3 ex_hand2 None,
                             ex_seat 13 3 ex_hand3 None]"
  by (simp add: ex_game1_def ex_game0_def Game_new_def ex_rules_fields ex_state_def ex_dealt_def
      ex_seat_def ex_player_def)




subsection \<open>A game with a single turn\<close>

lemma deal_turn_count: "deal (R\<lparr>TURN_COUNT := k\<rparr>) js xs g = deal R js xs g"
  by (induction js arbitrary: xs g) simp_all

lemma eligible_turn_count:
  "eligible_options (R\<lparr>TURN_COUNT := k\<rparr>) g = eligible_options R g"
  "eligible_personalities (R\<lparr>TURN_COUNT := k\<rparr>) g = eligible_personalities R g"
  by (simp_all add: eligible_options_def eligible_personalities_def)

lemma shuffle_options_turn_count:
  "shuffle_options (R\<lparr>TURN_COUNT := k\<rparr>) rn g = shuffle_options R rn g"
  by (simp add: shuffle_options_def eligible_turn_count)

lemma shuffle_turn_count: "shuffle (R\<lparr>TURN_COUNT := k\<rparr>) rn g = shuffle R rn g"
  by (simp add: shuffle_def eligible_turn_count shuffle_options_turn_count deal_turn_count Let_def)

lemma start_turn_count: "start (R\<lparr>TURN_COUNT := k\<rparr>) rn g = start R rn g"
  by (simp add: start_def is_startable_def shuffle_turn_count)

lemma join_turn_count: "join (R\<lparr>TURN_COUNT := k\<rparr>) rn g u = join R rn g u"
  by (simp add: join_def is_joinable_def available_cities_def Let_def)

lemma ex_rules_one_fields:
  "TURN_COUNT ex_rules_one = 1" "Age_next ex_rules_one = (\<lambda>a. None)" "SELL_VALUE ex_rules_one = 3"
  "City_objects ex_rules_one = map ex_city [11, 12, 13]"
  "Game_new ex_rules_one vs = Game_new ex_rules vs"
  by (simp_all add: ex_rules_one_def ex_rules_fields Game_new_def)

lemma ex_city_inj: "(ex_city j = ex_city k) = (j = k)"
  by (auto simp: ex_city_def)

lemma ex_join:
  "set us \<subseteq> {11, 12, 13} \<Longrightarrow> k \<in> {11, 12, 13} \<Longrightarrow> k \<notin> set us \<Longrightarrow>
   filter (\<lambda>j. j \<notin> set us) [11, 12, 13] = k # rest \<Longrightarrow>
   join ex_rules_one ex_rnd ((Game_new ex_rules [0])\<lparr>player_set := map ex_player us\<rparr>) k
     = Done ((Game_new ex_rules [0])\<lparr>player_set := map ex_player (us @ [k])\<rparr>)"
proof -
  assume a: "set us \<subseteq> {11, 12, 13}" "k \<in> {11, 12, 13}" "k \<notin> set us"
    "filter (\<lambda>j. j \<notin> set us) [11, 12, 13] = k # rest"
  let ?g = "(Game_new ex_rules [0])\<lparr>player_set := map ex_player us\<rparr>"
  have c: "city ` set (player_set ?g) = ex_city ` set us"
    by (simp add: image_image ex_player_def)
  have u: "user ` set (player_set ?g) = set us"
    by (simp add: image_image ex_player_def)
  have m: "\<And>j. (ex_city j \<in> ex_city ` set us) = (j \<in> set us)"
    by (auto simp: ex_city_inj)
  have av: "available_cities ex_rules ?g = map ex_city (k # rest)"
    unfolding available_cities_def c ex_rules_fields filter_map comp_def m a(4) ..
  have "join ex_rules ex_rnd ?g k = Done (?g\<lparr>player_set := player_set ?g @ [ex_player k]\<rparr>)"
    unfolding join_def is_joinable_def Let_def av unique_together_def c u
    using a(3)
    by (simp add: Game_new_def choice_def ex_rnd_def ex_rules_fields ex_player_def m)
  then show ?thesis by (simp add: ex_rules_one_def join_turn_count)
qed

lemma Game_new_no_players: "(Game_new R vs)\<lparr>player_set := []\<rparr> = Game_new R vs"
  by (simp add: Game_new_def)

lemma ex_joins:
  "join ex_rules_one ex_rnd (Game_new ex_rules_one [0]) 11
     = Done ((Game_new ex_rules [0])\<lparr>player_set := [ex_player 11]\<rparr>)"
  "join ex_rules_one ex_rnd ((Game_new ex_rules [0])\<lparr>player_set := [ex_player 11]\<rparr>) 12
     = Done ((Game_new ex_rules [0])\<lparr>player_set := [ex_player 11, ex_player 12]\<rparr>)"
  "join ex_rules_one ex_rnd ((Game_new ex_rules [0])\<lparr>player_set := [ex_player 11, ex_player 12]\<rparr>) 13
     = Done ex_game0"
proof -
  show "join ex_rules_one ex_rnd (Game_new ex_rules_one [0]) 11
     = Done ((Game_new ex_rules [0])\<lparr>player_set := [ex_player 11]\<rparr>)"
    using ex_join[of "[]" 11 "[12, 13]"]
    by (simp add: ex_rules_one_fields Game_new_no_players)
  show "join ex_rules_one ex_rnd ((Game_new ex_rules [0])\<lparr>player_set := [ex_player 11]\<rparr>) 12
     = Done ((Game_new ex_rules [0])\<lparr>player_set := [ex_player 11, ex_player 12]\<rparr>)"
    using ex_join[of "[11]" 12 "[13]"] by simp
  show "join ex_rules_one ex_rnd ((Game_new ex_rules [0])\<lparr>player_set := [ex_player 11, ex_player 12]\<rparr>) 13
     = Done ex_game0"
    using ex_join[of "[11, 12]" 13 "[]"] by (simp add: ex_game0_def)
qed

lemma ex_join_again:
  "join ex_rules_one ex_rnd ((Game_new ex_rules [0])\<lparr>player_set := [ex_player 11, ex_player 12]\<rparr>) 11
     = Raised IntegrityError ((Game_new ex_rules [0])\<lparr>player_set := [ex_player 11, ex_player 12]\<rparr>)"
  by (simp add: ex_rules_one_def join_turn_count join_def is_joinable_def available_cities_def
      unique_together_def Game_new_def ex_rules_fields ex_player_def ex_city_inj ex_city_def)

lemma ex_start_one: "start ex_rules_one ex_rnd ex_game0 = Done ex_game1"
  by (simp add: ex_rules_one_def start_turn_count ex_start)

lemma play_sell:
  "opt \<in> set (current_options (player_set g ! i)) \<Longrightarrow>
   play R rn g i SELL_ACTION opt tleft tright
     = turn_check R rn (update_player g i
         (\<lambda>p. p\<lparr>action := SELL_ACTION, option_picked := Some opt,
                trade_left := tleft, trade_right := tright\<rparr>))"
  by (simp add: play_def option_ne_def lazy_or_def assert_def ACTIONS_def)

lemma SELL_ACTION_not_empty: "SELL_ACTION \<noteq> []"
  by (simp add: SELL_ACTION_def)

lemma ex_play_first:
  "play ex_rules_one ex_rnd ex_game1 0 SELL_ACTION (ex_option 101) 0 0
     = Done (ex_state 1 [] [ex_seat 11 3 ex_hand1 (Some 101), ex_seat 12 3 ex_hand2 None,
                            ex_seat 13 3 ex_hand3 None])"
  by (subst play_sell)
     (simp_all add: ex_game1_state ex_state_fields ex_seat_fields ex_hand1_def update_player_def
        ex_state_updates ex_seat_updates turn_check_def missing_players_def SELL_ACTION_not_empty)

lemma ex_play_second:
  "play ex_rules_one ex_rnd
     (ex_state 1 [] [ex_seat 11 3 ex_hand1 (Some 101), ex_seat 12 3 ex_hand2 None,
                     ex_seat 13 3 ex_hand3 None]) 1 SELL_ACTION (ex_option 108) 0 0
     = Done ex_game_last"
  by (subst play_sell)
     (simp_all add: ex_game_last_def ex_state_fields ex_seat_fields ex_hand2_def update_player_def
        ex_state_updates ex_seat_updates turn_check_def missing_players_def SELL_ACTION_not_empty)

lemma ex_play_third:
  "play ex_rules_one ex_rnd ex_game_last 2 SELL_ACTION (ex_option 115) 0 0
     = end_of_turn ex_rules_one ex_rnd
         (ex_state 1 [] [ex_seat 11 3 ex_hand1 (Some 101), ex_seat 12 3 ex_hand2 (Some 108),
                         ex_seat 13 3 ex_hand3 (Some 115)])"
  by (subst play_sell)
     (simp_all add: ex_game_last_def ex_state_fields ex_seat_fields ex_hand3_def update_player_def
        ex_state_updates ex_seat_updates turn_check_def missing_players_def SELL_ACTION_not_empty)

lemma ex_game_over_fields:
  "finished ex_game_over" "started ex_game_over" "turn ex_game_over = 2"
proof -
  have "TURN_COUNT ex_rules_one < Suc 1" "Age_next ex_rules_one ex_age = None"
    by (simp_all add: ex_rules_one_fields)
  from sell_turn_last[OF this, where ?h1.0 = ex_hand1 and ?h2.0 = ex_hand2 and ?h3.0 = ex_hand3
      and rn = ex_rnd and ds = "[]" and ?m1.0 = 3 and ?x1.0 = 101 and ?m2.0 = 3 and ?x2.0 = 108
      and ?m3.0 = 3 and ?x3.0 = 115]
  obtain g' where g': "end_of_turn ex_rules_one ex_rnd
         (ex_state 1 [] [ex_seat 11 3 ex_hand1 (Some 101), ex_seat 12 3 ex_hand2 (Some 108),
                         ex_seat 13 3 ex_hand3 (Some 115)]) = Done g'"
      "finished g'" "started g'" "turn g' = Suc 1"
    by (auto simp: ex_hand1_def ex_hand2_def ex_hand3_def)
  have "ex_game_over = g'" by (simp only: ex_game_over_def ex_play_third g'(1) outcome_state.simps)
  then show "finished ex_game_over" "started ex_game_over" "turn ex_game_over = 2"
    using g' by simp_all
qed

lemma ex_reachable:
  "reachable ex_rules_one ((Game_new ex_rules [0])\<lparr>player_set := [ex_player 11, ex_player 12]\<rparr>)"
  "reachable ex_rules_one ex_game0" "reachable ex_rules_one ex_game1"
  "reachable ex_rules_one ex_game_last" "reachable ex_rules_one ex_game_over"
proof -
  have r0: "reachable ex_rules_one (Game_new ex_rules_one [0])" by (rule reachable_new)
  from reachable_join[OF r0, of ex_rnd 11]
  have r1: "reachable ex_rules_one ((Game_new ex_rules [0])\<lparr>player_set := [ex_player 11]\<rparr>)"
    by (simp add: ex_joins)
  from reachable_join[OF r1, of ex_rnd 12]
  show r2: "reachable ex_rules_one ((Game_new ex_rules [0])\<lparr>player_set := [ex_player 11, ex_player 12]\<rparr>)"
    by (simp add: ex_joins)
  from reachable_join[OF r2, of ex_rnd 13]
  show r3: "reachable ex_rules_one ex_game0" by (simp add: ex_joins)
  from reachable_start[OF r3, of ex_rnd]
  show r4: "reachable ex_rules_one ex_game1" by (simp add: ex_start_one)
  have "0 < length (player_set ex_game1)" by (simp add: ex_game1_fields)
  from reachable_play[OF r4 this, of ex_rnd SELL_ACTION "ex_option 101" 0 0]
  have r5: "reachable ex_rules_one (ex_state 1 [] [ex_seat 11 3 ex_hand1 (Some 101),
      ex_seat 12 3 ex_hand2 None, ex_seat 13 3 ex_hand3 None])"
    by (simp only: ex_play_first outcome_state.simps)
  have "1 < length (player_set (ex_state 1 [] [ex_seat 11 3 ex_hand1 (Some 101),
      ex_seat 12 3 ex_hand2 None, ex_seat 13 3 ex_hand3 None]))"
    by (simp add: ex_state_fields)
  from reachable_play[OF r5 this, of ex_rnd SELL_ACTION "ex_option 108" 0 0]
  show r6: "reachable ex_rules_one ex_game_last" by (simp only: ex_play_second outcome_state.simps)
  have "2 < length (player_set ex_game_last)" by (simp add: ex_game_last_def ex_state_fields)
  from reachable_play[OF r6 this, of ex_rnd SELL_ACTION "ex_option 115" 0 0]
  show "reachable ex_rules_one ex_game_over" by (simp add: ex_game_over_def)
qed




subsection \<open>The claims about the course of a game, at the example games\<close>


text \<open>
  C9 as it is worded fails: in the game with a single turn per age and a single age, the
  third decision resolves the turn, the age and the game, and the finished game that
  \<open>play\<close> leaves behind has the turn counter 2, beyond \<open>TURN_COUNT\<close>.
\<close>

theorem turn_counter_counterexample:
  "reachable ex_rules_one ex_game_over \<and> finished ex_game_over \<and> TURN_COUNT ex_rules_one = 1
   \<and> turn ex_game_over = 2 \<and> \<not> turn ex_game_over \<le> TURN_COUNT ex_rules_one"
  by (simp add: ex_reachable ex_game_over_fields ex_rules_one_fields)

theorem turn_counter_invariant_witness:
  "reachable ex_rules_one ex_game1 \<and> 1 \<le> TURN_COUNT ex_rules_one
   \<and> \<not> finished ex_game1 \<and> 1 \<le> turn ex_game1 \<and> turn ex_game1 \<le> TURN_COUNT ex_rules_one
   \<and> reachable ex_rules_one ex_game_over \<and> finished ex_game_over \<and> started ex_game_over
   \<and> turn ex_game_over = TURN_COUNT ex_rules_one + 1"
  using turn_counter_invariant[of ex_rules_one ex_game1]
    turn_counter_invariant[of ex_rules_one ex_game_over]
    ex_reachable(3,5) ex_game1_fields(2) ex_game_over_fields(1)
  by (simp add: ex_rules_one_fields)

theorem join_keeps_cities_and_users_apart_witness:
  "\<not> started ((Game_new ex_rules [0])\<lparr>player_set := [ex_player 11, ex_player 12]\<rparr>)
   \<and> join ex_rules_one ex_rnd ((Game_new ex_rules [0])\<lparr>player_set := [ex_player 11, ex_player 12]\<rparr>) 13
       = Done ex_game0
   \<and> (\<exists>p. player_set ex_game0 = [ex_player 11, ex_player 12] @ [p] \<and> user p = 13
          \<and> city p \<in> set (City_objects ex_rules_one) \<and> city p \<notin> {ex_city 11, ex_city 12})
   \<and> 11 \<in> user ` set [ex_player 11, ex_player 12]
   \<and> join ex_rules_one ex_rnd ((Game_new ex_rules [0])\<lparr>player_set := [ex_player 11, ex_player 12]\<rparr>) 11
       = Raised IntegrityError ((Game_new ex_rules [0])\<lparr>player_set := [ex_player 11, ex_player 12]\<rparr>)
   \<and> started ex_game1 \<and> (\<exists>e. join ex_rules_one ex_rnd ex_game1 14 = Raised e ex_game1)
   \<and> reachable ex_rules_one ex_game1
   \<and> map user (player_set ex_game1) = [11, 12, 13]
   \<and> distinct (map city (player_set ex_game1)) \<and> distinct (map user (player_set ex_game1))"
proof -
  let ?g = "(Game_new ex_rules [0])\<lparr>player_set := [ex_player 11, ex_player 12]\<rparr>"
  have s: "\<not> started ?g" by (simp add: Game_new_def)
  have ps: "player_set ?g = [ex_player 11, ex_player 12]" by simp
  from join_keeps_cities_and_users_apart[of ex_rules_one ex_rnd ?g 13 ex_game0] ex_joins(3)
  obtain p where p: "ex_game0 = ?g\<lparr>player_set := player_set ?g @ [p]\<rparr>" "user p = 13"
    "city p \<in> set (City_objects ex_rules_one)" "city p \<notin> city ` set (player_set ?g)"
    by blast
  from arg_cong[OF p(1), of player_set]
  have 1: "player_set ex_game0 = [ex_player 11, ex_player 12] @ [p]" by simp
  have 2: "city p \<notin> {ex_city 11, ex_city 12}" using p(4) by (simp add: ex_player_def)
  have u: "11 \<in> user ` set [ex_player 11, ex_player 12]" by (simp add: ex_player_def)
  have 3: "\<exists>e. join ex_rules_one ex_rnd ex_game1 14 = Raised e ex_game1"
    using join_keeps_cities_and_users_apart[of ex_rules_one ex_rnd ex_game1 14 ex_game1]
      ex_game1_fields(1) by blast
  have 4: "distinct (map city (player_set ex_game1)) \<and> distinct (map user (player_set ex_game1))"
    using join_keeps_cities_and_users_apart[of ex_rules_one ex_rnd ex_game1 14 ex_game1]
      ex_reachable(3) by blast
  have 5: "map user (player_set ex_game1) = [11, 12, 13]"
    by (simp add: ex_game1_fields ex_dealt_fields)
  show ?thesis
    using s ex_joins(3) 1 p(2,3) 2 u ex_join_again ex_game1_fields(1) 3 ex_reachable(3) 5 4
    by blast
qed


end
